theory Spec2Isabelle
  imports Complex_Main "HOL-Library.AList" "HOL-Library.Sublist"
begin

section \<open>JavaScript values\<close>

text \<open>
  The application stores, compares for truthiness and forwards JavaScript values; it
  performs no arithmetic on them. A number is therefore a real (finite doubles, \<open>-0\<close>
  identified with \<open>0\<close>) with \<open>NaN\<close> as a separate constructor, and an object is an
  association list of its own string-keyed properties in insertion order.
\<close>

datatype jsval =
    JUndefined
  | JNull
  | JBool bool
  | JNum real
  | JNaN
  | JStr string
  | JArr "jsval list"
  | JObj "(string \<times> jsval) list"

text \<open>ToBoolean: what \<open>if (v)\<close>, \<open>!v\<close>, \<open>a || b\<close>, \<open>a && b\<close> and \<open>c ? x : y\<close> test.\<close>

fun truthy :: "jsval \<Rightarrow> bool" where
  "truthy JUndefined = False"
| "truthy JNull = False"
| "truthy (JBool b) = b"
| "truthy (JNum r) = (r \<noteq> 0)"
| "truthy JNaN = False"
| "truthy (JStr s) = (s \<noteq> [])"
| "truthy (JArr xs) = True"
| "truthy (JObj kvs) = True"

text \<open>\<open>a || b\<close> yields \<open>a\<close> when it is truthy and \<open>b\<close> otherwise.\<close>

definition js_or :: "jsval \<Rightarrow> jsval \<Rightarrow> jsval" where
  "js_or a b = (if truthy a then a else b)"

text \<open>Property read \<open>obj.k\<close>: \<open>undefined\<close> for a key the object does not have.\<close>

definition get :: "(string \<times> jsval) list \<Rightarrow> string \<Rightarrow> jsval" where
  "get obj k = (case map_of obj k of None \<Rightarrow> JUndefined | Some v \<Rightarrow> v)"

text \<open>
  \<open>Object.assign(target, source)\<close>: every own property of the source is written to the
  target in the source's order; a key the target has keeps its position, a new key is
  appended.
\<close>

definition object_assign ::
  "(string \<times> jsval) list \<Rightarrow> (string \<times> jsval) list \<Rightarrow> (string \<times> jsval) list" where
  "object_assign target source = fold (\<lambda>(k, v). AList.update k v) source target"

datatype error_class = Error | TypeError | SyntaxError | URIError

datatype js_error = JSError (error_class: error_class) (message: string)

section \<open>Property\<close>

text \<open>
  Modelled from the spec: the class \<open>Property\<close> of \<open>./state/Property.js\<close> is imported by
  the application but its file is not part of the sources at hand. Following the spec, a
  Property owns its current value, its previous value (the field \<open>_previousValue\<close> that
  the application reads and writes, undefined until one is stored), and an ordered
  collection of listener callbacks (opaque to the application, represented by
  identifiers).
\<close>

record property =
  val :: jsval
  previousValue :: jsval
  listeners :: "nat list"

text \<open>
  Modelled from the spec: the constructor of the missing class \<open>Property\<close>, which
  supplies the value; no previous value and no listener yet.
\<close>

definition Property :: "jsval \<Rightarrow> property" where
  "Property v = \<lparr>val = v, previousValue = JUndefined, listeners = []\<rparr>"

text \<open>
  Modelled from the spec: the getter \<open>hasListeners\<close> of the missing class \<open>Property\<close>,
  true iff the listener count is greater than 0.
\<close>

definition hasListeners :: "property \<Rightarrow> bool" where
  "hasListeners p = (length (listeners p) > 0)"

text \<open>
  Modelled from the spec: the setter \<open>value\<close> of the missing class \<open>Property\<close>, which
  stores the previous value, then the current value, and then invokes the listeners
  (whose effects are theirs, not the application's).
\<close>

definition set_value :: "jsval \<Rightarrow> property \<Rightarrow> property" where
  "set_value v p = p\<lparr>previousValue := val p, val := v\<rparr>"

text \<open>
  Modelled from the spec: the operation of the missing class \<open>Property\<close> that appends a
  listener.
\<close>

definition subscribe :: "nat \<Rightarrow> property \<Rightarrow> property" where
  "subscribe l p = p\<lparr>listeners := listeners p @ [l]\<rparr>"

section \<open>Application state\<close>

text \<open>The eight keys of \<open>this.state\<close>; \<open>channel_name\<close> is the key as the source spells it.\<close>

datatype channel =
    Ready | Pause | CaptionsMuted | PlayOptions
  | SoundVolume | MusicVolume | VoVolume | SfxVolume

fun channel_name :: "channel \<Rightarrow> string" where
  "channel_name Ready = ''ready''"
| "channel_name Pause = ''pause''"
| "channel_name CaptionsMuted = ''captionsMuted''"
| "channel_name PlayOptions = ''playOptions''"
| "channel_name SoundVolume = ''soundVolume''"
| "channel_name MusicVolume = ''musicVolume''"
| "channel_name VoVolume = ''voVolume''"
| "channel_name SfxVolume = ''sfxVolume''"

text \<open>
  What the application calls on its collaborators, in call order: the container
  (\<open>BellhopSingleton\<close>: \<open>connect\<close>, \<open>send\<close>, \<open>on\<close>, \<open>fetch\<close>), the window
  (\<open>addEventListener\<close>) and the hint player (\<open>play\<close>). \<open>hints\<close> tells whether
  \<open>this.hints\<close> is set (truthy).
\<close>

datatype call =
    Connect
  | Send string jsval
  | On string
  | Fetch string
  | AddEventListener string
  | HintsPlay

datatype log_arg = LogStr string | LogErr js_error

record app =
  state :: "channel \<Rightarrow> property"
  features :: "(string \<times> jsval) list"
  calls :: "call list"
  debugger_log :: "(string \<times> log_arg) list"
  hints :: bool

definition initial_state :: "channel \<Rightarrow> property" where
  "initial_state c = (case c of
       Ready \<Rightarrow> Property (JBool False)
     | Pause \<Rightarrow> Property (JBool False)
     | CaptionsMuted \<Rightarrow> Property (JBool True)
     | PlayOptions \<Rightarrow> Property (JObj [])
     | SoundVolume \<Rightarrow> Property (JNum 1)
     | MusicVolume \<Rightarrow> Property (JNum 1)
     | VoVolume \<Rightarrow> Property (JNum 1)
     | SfxVolume \<Rightarrow> Property (JNum 1))"

definition set_state :: "channel \<Rightarrow> jsval \<Rightarrow> app \<Rightarrow> app" where
  "set_state c v a = a\<lparr>state := (state a)(c := set_value v (state a c))\<rparr>"

definition container_call :: "call \<Rightarrow> app \<Rightarrow> app" where
  "container_call c a = a\<lparr>calls := calls a @ [c]\<rparr>"

definition Debugger_log :: "string \<Rightarrow> log_arg \<Rightarrow> app \<Rightarrow> app" where
  "Debugger_log level x a = a\<lparr>debugger_log := debugger_log a @ [(level, x)]\<rparr>"

section \<open>Feature flags\<close>

definition default_features :: "(string \<times> jsval) list" where
  "default_features =
     [(''captions'', JBool False), (''sound'', JBool False), (''vo'', JBool False),
      (''music'', JBool False), (''sfx'', JBool False), (''soundVolume'', JBool False),
      (''musicVolume'', JBool False), (''voVolume'', JBool False),
      (''sfxVolume'', JBool False)]"

text \<open>
  Lines 45--63 of the constructor. The argument is \<open>None\<close> when the caller passes no
  \<open>features\<close> (or a falsy one, replaced by \<open>{}\<close>).
\<close>

definition make_features :: "(string \<times> jsval) list option \<Rightarrow> (string \<times> jsval) list" where
  "make_features fo =
     (let fs = object_assign default_features (case fo of None \<Rightarrow> [] | Some u \<Rightarrow> u)
      in if truthy (get fs ''vo'') \<or> truthy (get fs ''music'') \<or> truthy (get fs ''sfx'')
         then AList.update ''sound'' (JBool True) fs
         else fs)"

section \<open>Plugin registry\<close>

text \<open>
  A hook is code of the plugin. \<open>init\<close> and \<open>start\<close> are called synchronously with the
  application: they may change it and may throw. \<open>preload\<close> returns a promise; of the
  plugin's code only the outcome is followed (what a preload hook does to the application
  is the plugin's own business, not the runner's): the promise resolves or rejects
  when it settles, or the call itself throws (which also stands for a returned value that
  has no \<open>catch\<close> method). A hook that is absent (falsy) is \<open>None\<close>. Hooks are taken
  not to register plugins nor to write \<open>Application._plugins\<close>; \<open>preloadFailed\<close> is
  \<open>True\<close> for the value \<open>true\<close> and \<open>False\<close> for anything else.
\<close>

datatype preload_result = Resolves | Rejects js_error | ThrowsSync js_error

type_synonym hook = "app \<Rightarrow> app \<times> js_error option"

record plugin =
  name :: string
  preload :: "preload_result option"
  init :: "hook option"
  start :: "hook option"
  preloadFailed :: bool

text \<open>\<open>Application.uses\<close>: \<open>Application._plugins.push(plugin)\<close>.\<close>

definition uses :: "plugin \<Rightarrow> plugin list \<Rightarrow> plugin list" where
  "uses p plugins = plugins @ [p]"

text \<open>
  \<open>Application.getPlugin\<close>: \<open>Array.prototype.find\<close> visits the elements from index 0
  upwards and returns the first one the callback accepts, \<open>undefined\<close> (\<open>None\<close>) when
  there is none.
\<close>

fun getPlugin :: "plugin list \<Rightarrow> string \<Rightarrow> plugin option" where
  "getPlugin [] n = None"
| "getPlugin (p # ps) n = (if name p = n then Some p else getPlugin ps n)"

section \<open>Listeners on the container\<close>

definition events :: "channel list" where
  "events = [SoundVolume, MusicVolume, VoVolume, SfxVolume, CaptionsMuted, Pause]"

definition legacyListeners :: "(string \<times> channel) list" where
  "legacyListeners =
     [(''soundMuted'', SoundVolume), (''musicMuted'', MusicVolume),
      (''voMuted'', VoVolume), (''sfxMuted'', SfxVolume)]"

text \<open>
  The listener of lines 102--106, for the Property \<open>this.state[volume]\<close>; \<open>data\<close> is
  \<open>containerEvent.data\<close>. The source writes \<open>_previousValue\<close> itself and then assigns
  \<open>value\<close> through the setter.
\<close>

definition legacy_listener :: "channel \<Rightarrow> jsval \<Rightarrow> app \<Rightarrow> app" where
  "legacy_listener volume data a =
     (let property = state a volume;
          previous = js_or (previousValue property) (JNum 1);
          property1 = property\<lparr>previousValue := val property\<rparr>;
          property2 = set_value (if truthy data then JNum 0 else previous) property1
      in a\<lparr>state := (state a)(volume := property2)\<rparr>)"

definition playHelp_listener :: "app \<Rightarrow> app" where
  "playHelp_listener a =
     (if \<not> hints a
      then Debugger_log ''warn'' (LogStr
        ''[Springroll] Missing IHintPlayer see: https://github.com/SpringRoll/SpringRoll/tree/v2/src/hints'') a
      else container_call HintsPlay a)"

text \<open>
  Every listener the constructor attaches to the container, in the order of the \<open>on\<close>
  and \<open>fetch\<close> calls, and the delivery of one container event to a constructed
  application: each listener attached under the event's name runs with the payload.
\<close>

definition container_listeners :: "(string \<times> (jsval \<Rightarrow> app \<Rightarrow> app)) list" where
  "container_listeners =
     map (\<lambda>c. (channel_name c, set_state c)) events
     @ map (\<lambda>(mute, volume). (mute, legacy_listener volume)) legacyListeners
     @ [(''playOptions'', set_state PlayOptions), (''playHelp'', \<lambda>data. playHelp_listener)]"

definition receive :: "string \<Rightarrow> jsval \<Rightarrow> app \<Rightarrow> app" where
  "receive ev data a =
     fold (\<lambda>(n, listener) a. if n = ev then listener data a else a) container_listeners a"

section \<open>Play options from the query string\<close>

text \<open>
  \<open>/playOptions=[^&$]*/.exec(search)\<close>: the leftmost occurrence of \<open>playOptions=\<close>
  followed by the longest run of characters other than \<open>&\<close> and \<open>$\<close>; the result is
  \<open>match[0]\<close>, or \<open>None\<close> for \<open>null\<close>.
\<close>

fun regex_exec :: "string \<Rightarrow> string option" where
  "regex_exec [] = None"
| "regex_exec (c # cs) =
     (if take (length ''playOptions='') (c # cs) = ''playOptions=''
      then Some (''playOptions=''
             @ takeWhile (\<lambda>x. x \<noteq> CHR ''&'' \<and> x \<noteq> CHR ''$'')
                 (drop (length ''playOptions='') (c # cs)))
      else regex_exec cs)"

text \<open>\<open>s.split(d)\<close> for a one-character separator.\<close>

fun split :: "char \<Rightarrow> string \<Rightarrow> string list" where
  "split d [] = [[]]"
| "split d (c # cs) =
     (if c = d then [] # split d cs
      else (case split d cs of w # ws \<Rightarrow> (c # w) # ws | [] \<Rightarrow> [[c]]))"

text \<open>
  \<open>parts[1]\<close> as the argument of \<open>decodeURIComponent\<close>, which turns \<open>undefined\<close> into
  the string \<open>undefined\<close>.
\<close>

definition second_part :: "string list \<Rightarrow> string" where
  "second_part parts = (case parts of _ # v # _ \<Rightarrow> v | _ \<Rightarrow> ''undefined'')"

text \<open>
  What the constructor takes from the browser: the query string, and the built-ins
  \<open>decodeURIComponent\<close> (which throws a URIError on a malformed escape) and
  \<open>JSON.parse\<close> (which throws a SyntaxError on text that is not JSON); \<open>settle_order\<close> is
  the order in which the event loop settles the promises the preload hooks returned,
  given by their indices (an index that does not occur stands for a promise that never
  settles).
\<close>

record browser =
  location_search :: string
  decodeURIComponent :: "string \<Rightarrow> js_error + string"
  JSON_parse :: "string \<Rightarrow> js_error + jsval"
  settle_order :: "nat list"

text \<open>Lines 115--128; \<open>Inl\<close> is an exception that leaves the constructor.\<close>

definition query_playOptions :: "browser \<Rightarrow> app \<Rightarrow> js_error + app" where
  "query_playOptions b a =
     (case regex_exec (location_search b) of
        None \<Rightarrow> Inr a
      | Some matchedToken \<Rightarrow>
          (case decodeURIComponent b (second_part (split CHR ''='' matchedToken)) of
             Inl e \<Rightarrow> Inl e
           | Inr rawValue \<Rightarrow>
               (case JSON_parse b rawValue of
                  Inr v \<Rightarrow> Inr (set_state PlayOptions v a)
                | Inl e \<Rightarrow>
                    Inr (Debugger_log ''warn''
                      (LogStr (''Failed to parse playOptions from query string:'' @ message e))
                      a))))"

section \<open>Listener validation\<close>

definition featureToStateMap :: "(string \<times> channel) list" where
  "featureToStateMap =
     [(''captions'', CaptionsMuted), (''sound'', SoundVolume), (''music'', MusicVolume),
      (''vo'', VoVolume), (''sfx'', SfxVolume)]"

text \<open>The loop of lines 245--251 over the keys still to visit, pushing to \<open>missing\<close>.\<close>

fun collect_missing :: "app \<Rightarrow> (string \<times> channel) list \<Rightarrow> string list \<Rightarrow> string list" where
  "collect_missing a [] missing = missing"
| "collect_missing a ((key, stateName) # rest) missing =
     (if truthy (get (features a) key) \<and> \<not> hasListeners (state a stateName)
      then collect_missing a rest (missing @ [channel_name stateName])
      else collect_missing a rest missing)"

definition missingListeners :: "app \<Rightarrow> string list" where
  "missingListeners a =
     (let missing = collect_missing a featureToStateMap []
      in if \<not> hasListeners (state a Pause) then missing @ [''pause''] else missing)"

text \<open>\<open>Array.prototype.join\<close> on strings.\<close>

fun join :: "string \<Rightarrow> string list \<Rightarrow> string" where
  "join sep [] = []"
| "join sep [x] = x"
| "join sep (x # y # ys) = x @ sep @ join sep (y # ys)"

definition validateListeners :: "app \<Rightarrow> js_error + unit" where
  "validateListeners a =
     (if length (missingListeners a) \<noteq> 0
      then Inl (JSError Error
             (''Application state is missing required listeners: ''
              @ join '', '' (missingListeners a) @ ''.''))
      else Inr ())"

section \<open>Plugin lifecycle\<close>

text \<open>
  What an observer of the runner sees, in order: a preload hook is called (index in
  \<open>Application._plugins\<close>), its promise resolves, its promise rejects and \<open>preloadFail\<close>
  runs (\<open>console.warn\<close> with the plugin's name and the error), an init hook is called, a
  start hook is called (both with the plugin's name).
\<close>

datatype event =
    PreloadCalled nat
  | PreloadResolved nat
  | PreloadFailed nat string js_error
  | InitCalled string
  | StartCalled string

datatype launch_exit = AllLaunched | NoPreloadHook | PreloadThrew js_error

text \<open>
  The loop of lines 174--191 from index \<open>i\<close> on: the events, the number of promises
  pushed to \<open>preloads\<close>, and how the loop was left.
\<close>

fun launch_preloads :: "plugin list \<Rightarrow> nat \<Rightarrow> event list \<times> nat \<times> launch_exit" where
  "launch_preloads [] i = ([], i, AllLaunched)"
| "launch_preloads (p # ps) i =
     (case preload p of
        None \<Rightarrow> ([], i, NoPreloadHook)
      | Some (ThrowsSync e) \<Rightarrow> ([PreloadCalled i], i, PreloadThrew e)
      | Some Resolves \<Rightarrow>
          (case launch_preloads ps (Suc i) of (t, n, x) \<Rightarrow> (PreloadCalled i # t, n, x))
      | Some (Rejects e) \<Rightarrow>
          (case launch_preloads ps (Suc i) of (t, n, x) \<Rightarrow> (PreloadCalled i # t, n, x)))"

text \<open>The rejection handler of lines 182--189 for index \<open>i\<close>.\<close>

definition preloadFail :: "nat \<Rightarrow> js_error \<Rightarrow> plugin list \<Rightarrow> plugin list \<times> event list" where
  "preloadFail i error plugins =
     (plugins[i := (plugins ! i)\<lparr>preloadFailed := True\<rparr>],
      [PreloadFailed i (name (plugins ! i)) error])"

text \<open>
  The promises of the \<open>n\<close> launched preloads settle in the order the schedule gives; an
  entry that names no launched promise, or one that has settled, does nothing. Returns
  the indices settled, the registry and the events.
\<close>

fun settle_preloads ::
  "nat \<Rightarrow> nat list \<Rightarrow> nat list \<Rightarrow> plugin list \<Rightarrow> nat list \<times> plugin list \<times> event list" where
  "settle_preloads n [] settled plugins = (settled, plugins, [])"
| "settle_preloads n (i # sched) settled plugins =
     (if i < n \<and> i < length plugins \<and> i \<notin> set settled then
        (case preload (plugins ! i) of
           Some Resolves \<Rightarrow>
             (case settle_preloads n sched (i # settled) plugins of
                (s, ps, t) \<Rightarrow> (s, ps, PreloadResolved i # t))
         | Some (Rejects error) \<Rightarrow>
             (case preloadFail i error plugins of
                (plugins1, t1) \<Rightarrow>
                  (case settle_preloads n sched (i # settled) plugins1 of
                     (s, ps, t) \<Rightarrow> (s, ps, t1 @ t)))
         | _ \<Rightarrow> settle_preloads n sched settled plugins)
      else settle_preloads n sched settled plugins)"

datatype loop_exit = LoopDone | EarlyReturn | HookThrew js_error

text \<open>The loops of lines 201--206 and 209--214.\<close>

fun init_loop :: "plugin list \<Rightarrow> app \<Rightarrow> event list \<times> app \<times> loop_exit" where
  "init_loop [] a = ([], a, LoopDone)"
| "init_loop (p # ps) a =
     (case init p of
        None \<Rightarrow> ([], a, EarlyReturn)
      | Some h \<Rightarrow>
          (case h a of
             (a1, Some e) \<Rightarrow> ([InitCalled (name p)], a1, HookThrew e)
           | (a1, None) \<Rightarrow>
               (case init_loop ps a1 of (t, a2, x) \<Rightarrow> (InitCalled (name p) # t, a2, x))))"

fun start_loop :: "plugin list \<Rightarrow> app \<Rightarrow> event list \<times> app \<times> loop_exit" where
  "start_loop [] a = ([], a, LoopDone)"
| "start_loop (p # ps) a =
     (case start p of
        None \<Rightarrow> ([], a, EarlyReturn)
      | Some h \<Rightarrow>
          (case h a of
             (a1, Some e) \<Rightarrow> ([StartCalled (name p)], a1, HookThrew e)
           | (a1, None) \<Rightarrow>
               (case start_loop ps a1 of (t, a2, x) \<Rightarrow> (StartCalled (name p) # t, a2, x))))"

text \<open>
  The callback of lines 194--215: the events, the new value of \<open>Application._plugins\<close>,
  the application, and the error the callback threw, if any.
\<close>

definition then_callback ::
  "plugin list \<Rightarrow> app \<Rightarrow> event list \<times> plugin list \<times> app \<times> js_error option" where
  "then_callback plugins a =
     (let plugins1 = filter (\<lambda>plugin. preloadFailed plugin \<noteq> True) plugins
      in case init_loop plugins1 a of
           (t1, a1, HookThrew e) \<Rightarrow> (t1, plugins1, a1, Some e)
         | (t1, a1, EarlyReturn) \<Rightarrow> (t1, plugins1, a1, None)
         | (t1, a1, LoopDone) \<Rightarrow>
             (case start_loop plugins1 a1 of
                (t2, a2, HookThrew e) \<Rightarrow> (t1 @ t2, plugins1, a2, Some e)
              | (t2, a2, EarlyReturn) \<Rightarrow> (t1 @ t2, plugins1, a2, None)
              | (t2, a2, LoopDone) \<Rightarrow> (t1 @ t2, plugins1, a2, None)))"

datatype promise = Fulfilled | Rejected js_error | Pending

text \<open>
  \<open>Promise.all(preloads).then(callback)\<close> once the event loop has run: the launched
  promises settle as scheduled (each was given the rejection handler, so none of the
  promises in \<open>preloads\<close> rejects); the callback runs when all \<open>n\<close> have settled, and the
  returned promise stays pending otherwise.
\<close>

definition all_preloads_then ::
  "nat list \<Rightarrow> nat \<Rightarrow> plugin list \<Rightarrow> app \<Rightarrow> event list \<times> plugin list \<times> app \<times> promise" where
  "all_preloads_then sched n plugins a =
     (case settle_preloads n sched [] plugins of
        (settled, plugins1, t1) \<Rightarrow>
          if list_all (\<lambda>i. i \<in> set settled) [0..<n]
          then (case then_callback plugins1 a of
                  (t2, plugins2, a2, thrown) \<Rightarrow>
                    (t1 @ t2, plugins2, a2,
                     case thrown of None \<Rightarrow> Fulfilled | Some e \<Rightarrow> Rejected e))
          else (t1, plugins1, a, Pending))"

datatype setup_result = ReturnsUndefined | Throws js_error | ReturnsPromise promise

text \<open>
  \<open>setupPlugins\<close>, with the event loop run until nothing more can happen: the events,
  the final \<open>Application._plugins\<close>, the application, and what the call returned (for a
  promise, its final state). When the loop over the preload hooks is left early, the
  promises launched before still settle and their rejection handlers still run.
\<close>

definition setupPlugins ::
  "nat list \<Rightarrow> plugin list \<Rightarrow> app \<Rightarrow> event list \<times> plugin list \<times> app \<times> setup_result" where
  "setupPlugins sched plugins a =
     (case launch_preloads plugins 0 of
        (t0, n, NoPreloadHook) \<Rightarrow>
          (case settle_preloads n sched [] plugins of
             (settled, plugins1, t1) \<Rightarrow> (t0 @ t1, plugins1, a, ReturnsUndefined))
      | (t0, n, PreloadThrew e) \<Rightarrow>
          (case settle_preloads n sched [] plugins of
             (settled, plugins1, t1) \<Rightarrow> (t0 @ t1, plugins1, a, Throws e))
      | (t0, n, AllLaunched) \<Rightarrow>
          (case all_preloads_then sched n plugins a of
             (t, plugins1, a1, p) \<Rightarrow> (t0 @ t, plugins1, a1, ReturnsPromise p)))"

section \<open>The constructor and its startup chain\<close>

text \<open>
  \<open>p.catch(handler)\<close> and \<open>p.then(handler)\<close> on a promise whose final state is known,
  with the application passed through: the new promise's final state and the
  application after the handler. The catch handlers of the chain only log; a then
  handler may throw.
\<close>

definition promise_catch :: "promise \<Rightarrow> (js_error \<Rightarrow> app \<Rightarrow> app) \<Rightarrow> app \<Rightarrow> app \<times> promise" where
  "promise_catch p handler a =
     (case p of
        Fulfilled \<Rightarrow> (a, Fulfilled)
      | Rejected e \<Rightarrow> (handler e a, Fulfilled)
      | Pending \<Rightarrow> (a, Pending))"

definition promise_then ::
  "promise \<Rightarrow> (app \<Rightarrow> app \<times> js_error option) \<Rightarrow> app \<Rightarrow> app \<times> promise" where
  "promise_then p handler a =
     (case p of
        Fulfilled \<Rightarrow>
          (case handler a of (a1, None) \<Rightarrow> (a1, Fulfilled) | (a1, Some e) \<Rightarrow> (a1, Rejected e))
      | Rejected e \<Rightarrow> (a, Rejected e)
      | Pending \<Rightarrow> (a, Pending))"

text \<open>Lines 136--149, from the promise \<open>setupPlugins\<close> returned.\<close>

definition startup_chain :: "promise \<Rightarrow> app \<Rightarrow> app \<times> promise" where
  "startup_chain p0 a0 =
     (case promise_catch p0 (\<lambda>e. Debugger_log ''warn'' (LogErr e)) a0 of (a1, p1) \<Rightarrow>
      case promise_then p1
             (\<lambda>a. (a, case validateListeners a of Inl e \<Rightarrow> Some e | Inr u \<Rightarrow> None)) a1
        of (a2, p2) \<Rightarrow>
      case promise_catch p2 (\<lambda>e. Debugger_log ''warn'' (LogErr e)) a2 of (a3, p3) \<Rightarrow>
      promise_then p3
        (\<lambda>a. (set_state Ready (JBool True) (container_call (Send ''loaded'' JUndefined) a),
              None)) a3)"

datatype constructed = ConstructorThrew js_error | Constructed promise

text \<open>Lines 34--112: the application before the query string is read.\<close>

definition new_app :: "(string \<times> jsval) list option \<Rightarrow> app" where
  "new_app fo =
     (let a = \<lparr>state = initial_state, features = make_features fo, calls = [],
               debugger_log = [], hints = False\<rparr>;
          a = container_call Connect a;
          a = container_call (Send ''features'' (JObj (features a))) a;
          a = container_call (Send ''keepFocus'' (JBool False)) a;
          a = fold (\<lambda>c. container_call (On (channel_name c))) events a;
          a = fold (\<lambda>(mute, volume). container_call (On mute)) legacyListeners a;
          a = container_call (AddEventListener ''focus'') a
      in container_call (AddEventListener ''blur'') a)"

text \<open>
  \<open>new Application({features, hintPlayer})\<close> with the event loop run until nothing more
  can happen: whether the constructor threw (and what) or else the final state of the
  last promise of the startup chain, the runner's events, the final
  \<open>Application._plugins\<close> and the application. The call \<open>this.setupPlugins()\<close> returns
  before any promise settles, so the rest of the constructor runs between the loop over
  the preload hooks and the settling; \<open>.catch\<close> on the \<open>undefined\<close> that the loop's
  early return yields is a TypeError thrown by the constructor. Code of the caller that
  runs once the constructor has returned is not part of this function; events the
  container delivers later are \<open>receive\<close>.
\<close>

definition Application ::
  "browser \<Rightarrow> (string \<times> jsval) list option \<Rightarrow> bool \<Rightarrow> plugin list
     \<Rightarrow> constructed \<times> event list \<times> plugin list \<times> app" where
  "Application b fo hintPlayer plugins =
     (case query_playOptions b (new_app fo) of
        Inl e \<Rightarrow> (ConstructorThrew e, [], plugins, new_app fo)
      | Inr a1 \<Rightarrow>
          (let a2 = container_call (Fetch ''playOptions'') a1 in
           case launch_preloads plugins 0 of
             (t0, n, NoPreloadHook) \<Rightarrow>
               (case settle_preloads n (settle_order b) [] plugins of
                  (settled, plugins1, t1) \<Rightarrow>
                    (ConstructorThrew (JSError TypeError
                        ''Cannot read properties of undefined (reading 'catch')''),
                     t0 @ t1, plugins1, a2))
           | (t0, n, PreloadThrew e) \<Rightarrow>
               (case settle_preloads n (settle_order b) [] plugins of
                  (settled, plugins1, t1) \<Rightarrow> (ConstructorThrew e, t0 @ t1, plugins1, a2))
           | (t0, n, AllLaunched) \<Rightarrow>
               (let a3 = container_call (On ''playHelp'') (a2\<lparr>hints := hintPlayer\<rparr>) in
                case all_preloads_then (settle_order b) n plugins a3 of
                  (t, plugins1, a4, p) \<Rightarrow>
                    (case startup_chain p a4 of
                       (a5, p5) \<Rightarrow> (Constructed p5, t0 @ t, plugins1, a5)))))"

section \<open>Reading the runner's events\<close>

fun is_hook_call :: "event \<Rightarrow> bool" where
  "is_hook_call (InitCalled n) = True"
| "is_hook_call (StartCalled n) = True"
| "is_hook_call e = False"

text \<open>\<open>settles i e\<close>: the event \<open>e\<close> is the settling of the promise launched at index \<open>i\<close>.\<close>

fun settles :: "nat \<Rightarrow> event \<Rightarrow> bool" where
  "settles i (PreloadResolved j) = (i = j)"
| "settles i (PreloadFailed j n e) = (i = j)"
| "settles i e = False"

text \<open>The names of the init calls, and of the start calls, in the order of the events.\<close>

fun init_names :: "event list \<Rightarrow> string list" where
  "init_names [] = []"
| "init_names (InitCalled n # es) = n # init_names es"
| "init_names (e # es) = init_names es"

fun start_names :: "event list \<Rightarrow> string list" where
  "start_names [] = []"
| "start_names (StartCalled n # es) = n # start_names es"
| "start_names (e # es) = start_names es"

text \<open>The descriptor's preload hook exists and returns a promise; the promise rejects.\<close>

definition returns_promise :: "plugin \<Rightarrow> bool" where
  "returns_promise p =
     (case preload p of Some Resolves \<Rightarrow> True | Some (Rejects e) \<Rightarrow> True | _ \<Rightarrow> False)"

definition preload_rejects :: "plugin \<Rightarrow> bool" where
  "preload_rejects p = (case preload p of Some (Rejects e) \<Rightarrow> True | _ \<Rightarrow> False)"

section \<open>Feature-flag derivation\<close>

lemma get_update: "get (AList.update k v obj) k' = (if k' = k then v else get obj k')"
  by (simp add: get_def update_conv')

lemma get_object_assign:
  "get (object_assign target source) k =
     (case map_of (rev source) k of None \<Rightarrow> get target k | Some v \<Rightarrow> v)"
  unfolding object_assign_def
proof (induction source arbitrary: target)
  case Nil
  then show ?case by simp
next
  case (Cons kv source)
  obtain k0 v0 where kv: "kv = (k0, v0)" by (cases kv)
  show ?case
    by (simp add: kv Cons.IH get_update map_add_def split: option.splits)
qed

lemma get_make_features:
  "k \<noteq> ''sound'' \<Longrightarrow> get (make_features fo) k
     = get (object_assign default_features (case fo of None \<Rightarrow> [] | Some u \<Rightarrow> u)) k"
  by (simp add: make_features_def Let_def get_update)

lemma get_default_features:
  "k \<in> {''vo'', ''music'', ''sfx''} \<Longrightarrow> get default_features k = JBool False"
  by (auto simp: default_features_def get_def)

text \<open>
  C6. Whatever features the caller passes (none, or any object), when one of \<open>vo\<close>,
  \<open>music\<close>, \<open>sfx\<close> is true (indeed: truthy) in the constructed feature set, the
  constructed \<open>sound\<close> flag is the boolean \<open>true\<close>; each of these three flags of the
  constructed set is the value the caller gave it, and the default \<open>false\<close> when the
  caller gave none.
\<close>

theorem sound_forced_by_channels:
  "\<forall>k \<in> {''vo'', ''music'', ''sfx''}.
     (truthy (get (make_features fo) k) \<longrightarrow> get (make_features fo) ''sound'' = JBool True)
     \<and> get (make_features fo) k
         = (case map_of (rev (case fo of None \<Rightarrow> [] | Some u \<Rightarrow> u)) k of
              None \<Rightarrow> JBool False | Some v \<Rightarrow> v)"
proof
  fix k :: string
  assume k: "k \<in> {''vo'', ''music'', ''sfx''}"
  then have ns: "k \<noteq> ''sound''" by auto
  have a: "truthy (get (make_features fo) k) \<longrightarrow> get (make_features fo) ''sound'' = JBool True"
    using k by (auto simp: make_features_def Let_def get_update)
  have b: "get (make_features fo) k
         = (case map_of (rev (case fo of None \<Rightarrow> [] | Some u \<Rightarrow> u)) k of
              None \<Rightarrow> JBool False | Some v \<Rightarrow> v)"
    by (simp only: get_make_features [OF ns] get_object_assign get_default_features [OF k])
  from a b show "(truthy (get (make_features fo) k) \<longrightarrow> get (make_features fo) ''sound'' = JBool True)
     \<and> get (make_features fo) k
         = (case map_of (rev (case fo of None \<Rightarrow> [] | Some u \<Rightarrow> u)) k of
              None \<Rightarrow> JBool False | Some v \<Rightarrow> v)" by simp
qed

theorem sound_forced_by_channels_witness:
  "get (make_features (Some [(''vo'', JBool True)])) ''vo'' = JBool True
   \<and> get (make_features (Some [(''vo'', JBool True)])) ''sound'' = JBool True
   \<and> get (make_features (Some [(''sfx'', JBool True), (''sound'', JBool False)])) ''sound''
       = JBool True"
proof -
  have vo: "get (make_features (Some [(''vo'', JBool True)])) ''vo'' = JBool True"
    by (simp add: make_features_def object_assign_def default_features_def get_def)
  have sfx: "truthy (get (make_features (Some [(''sfx'', JBool True), (''sound'', JBool False)])) ''sfx'')"
    by (simp add: make_features_def object_assign_def default_features_def get_def)
  from vo sfx
    sound_forced_by_channels [of "Some [(''vo'', JBool True)]"]
    sound_forced_by_channels [of "Some [(''sfx'', JBool True), (''sound'', JBool False)]"]
  show ?thesis by simp
qed

section \<open>Plugin lookup\<close>

lemma getPlugin_find: "getPlugin plugins n = List.find (\<lambda>p. name p = n) plugins"
  by (induction plugins) auto

text \<open>
  C8. For every registry and name, \<open>getPlugin\<close> returns the descriptor at the least index
  whose name equals the argument, and the not-found result exactly when no registered
  descriptor has that name.
\<close>

theorem getPlugin_first_match:
  "(getPlugin plugins n = None \<longleftrightarrow> (\<forall>p \<in> set plugins. name p \<noteq> n))
   \<and> (\<forall>p. getPlugin plugins n = Some p \<longleftrightarrow>
        (\<exists>i < length plugins. plugins ! i = p \<and> name p = n
           \<and> (\<forall>j < i. name (plugins ! j) \<noteq> n)))"
  by (auto simp: getPlugin_find find_None_iff find_Some_iff)

theorem getPlugin_first_match_witness:
  "getPlugin
     [\<lparr>name = ''a'', preload = None, init = None, start = None, preloadFailed = False\<rparr>,
      \<lparr>name = ''b'', preload = Some Resolves, init = None, start = None, preloadFailed = False\<rparr>,
      \<lparr>name = ''b'', preload = None, init = None, start = None, preloadFailed = False\<rparr>] ''b''
   = Some \<lparr>name = ''b'', preload = Some Resolves, init = None, start = None,
        preloadFailed = False\<rparr>
   \<and> getPlugin
     [\<lparr>name = ''a'', preload = None, init = None, start = None, preloadFailed = False\<rparr>] ''b''
   = None"
  using getPlugin_first_match
    [of "[\<lparr>name = ''a'', preload = None, init = None, start = None, preloadFailed = False\<rparr>,
      \<lparr>name = ''b'', preload = Some Resolves, init = None, start = None, preloadFailed = False\<rparr>,
      \<lparr>name = ''b'', preload = None, init = None, start = None, preloadFailed = False\<rparr>]" "''b''"]
    getPlugin_first_match
    [of "[\<lparr>name = ''a'', preload = None, init = None, start = None, preloadFailed = False\<rparr>]"
      "''b''"]
  by simp

section \<open>Legacy mute events\<close>

lemma receive_soundMuted:
  "receive ''soundMuted'' data a = legacy_listener SoundVolume data a"
  by (simp add: receive_def container_listeners_def legacyListeners_def events_def)

lemma receive_musicMuted:
  "receive ''musicMuted'' data a = legacy_listener MusicVolume data a"
  by (simp add: receive_def container_listeners_def legacyListeners_def events_def)

lemma receive_voMuted:
  "receive ''voMuted'' data a = legacy_listener VoVolume data a"
  by (simp add: receive_def container_listeners_def legacyListeners_def events_def)

lemma receive_sfxMuted:
  "receive ''sfxMuted'' data a = legacy_listener SfxVolume data a"
  by (simp add: receive_def container_listeners_def legacyListeners_def events_def)

lemma receive_legacy:
  assumes "(mute, volume) \<in> set legacyListeners"
  shows "receive mute data a = legacy_listener volume data a"
proof -
  from assms consider
      "mute = ''soundMuted''" "volume = SoundVolume"
    | "mute = ''musicMuted''" "volume = MusicVolume"
    | "mute = ''voMuted''" "volume = VoVolume"
    | "mute = ''sfxMuted''" "volume = SfxVolume"
    unfolding legacyListeners_def by auto
  then show ?thesis
  proof cases
    case 1 then show ?thesis by (simp only: receive_soundMuted)
  next
    case 2 then show ?thesis by (simp only: receive_musicMuted)
  next
    case 3 then show ?thesis by (simp only: receive_voMuted)
  next
    case 4 then show ?thesis by (simp only: receive_sfxMuted)
  qed
qed

lemma legacy_listener_val:
  "val (state (legacy_listener volume data a) volume)
     = (if truthy data then JNum 0 else js_or (previousValue (state a volume)) (JNum 1))"
  by (simp add: legacy_listener_def Let_def set_value_def)

lemma legacy_listener_previousValue:
  "previousValue (state (legacy_listener volume data a) volume) = val (state a volume)"
  by (simp add: legacy_listener_def Let_def set_value_def)

text \<open>
  The listener has written the current value to \<open>_previousValue\<close> when it assigns
  \<open>value\<close>, so the setter's own store of the previous value changes nothing: the
  listener's effect is the same with a setter that only stores the new value.
\<close>

lemma legacy_listener_setter:
  "legacy_listener volume data a =
     a\<lparr>state := (state a)(volume := (state a volume)
        \<lparr>previousValue := val (state a volume),
         val := (if truthy data then JNum 0
                 else js_or (previousValue (state a volume)) (JNum 1))\<rparr>)\<rparr>"
  by (simp add: legacy_listener_def Let_def set_value_def)

text \<open>
  C5. For each legacy mute event and its volume Property (\<open>soundMuted\<close> and
  \<open>soundVolume\<close>, and likewise music, vo, sfx): when the Property holds a number \<open>v\<close>
  other than 0 (0.8 in particular), whatever previous value is recorded (none in
  particular), the event with payload \<open>true\<close> sets the Property to 0, and the event with
  payload \<open>false\<close> immediately after sets it back to \<open>v\<close>.
\<close>

theorem legacy_mute_round_trip:
  "\<forall>(mute, volume) \<in> set legacyListeners.
     val (state a volume) = JNum v \<and> v \<noteq> 0 \<longrightarrow>
       val (state (receive mute (JBool True) a) volume) = JNum 0
       \<and> val (state (receive mute (JBool False) (receive mute (JBool True) a)) volume) = JNum v"
proof (clarify, intro conjI)
  fix mute volume
  assume m: "(mute, volume) \<in> set legacyListeners"
    and v: "val (state a volume) = JNum v" "v \<noteq> 0"
  show "val (state (receive mute (JBool True) a) volume) = JNum 0"
    by (simp add: receive_legacy [OF m] legacy_listener_val)
  show "val (state (receive mute (JBool False) (receive mute (JBool True) a)) volume) = JNum v"
    using v
    by (simp add: receive_legacy [OF m] legacy_listener_val legacy_listener_previousValue
        js_or_def)
qed

theorem legacy_mute_round_trip_witness:
  "val (state (receive ''soundMuted'' (JBool True)
         \<lparr>state = initial_state(SoundVolume := Property (JNum (4/5))),
          features = default_features, calls = [], debugger_log = [], hints = True\<rparr>)
       SoundVolume) = JNum 0
   \<and> val (state (receive ''soundMuted'' (JBool False) (receive ''soundMuted'' (JBool True)
         \<lparr>state = initial_state(SoundVolume := Property (JNum (4/5))),
          features = default_features, calls = [], debugger_log = [], hints = True\<rparr>))
       SoundVolume) = JNum (4/5)"
proof -
  let ?a = "\<lparr>state = initial_state(SoundVolume := Property (JNum (4/5))),
          features = default_features, calls = [], debugger_log = [], hints = True\<rparr>"
  have m: "(''soundMuted'', SoundVolume) \<in> set legacyListeners"
    by (simp add: legacyListeners_def)
  have h: "val (state ?a SoundVolume) = JNum (4/5) \<and> (4/5::real) \<noteq> 0"
    by (simp add: Property_def)
  from bspec [OF legacy_mute_round_trip [of ?a "4/5"] m]
  have r: "val (state ?a SoundVolume) = JNum (4/5) \<and> (4/5::real) \<noteq> 0 \<longrightarrow>
       val (state (receive ''soundMuted'' (JBool True) ?a) SoundVolume) = JNum 0
       \<and> val (state (receive ''soundMuted'' (JBool False)
                (receive ''soundMuted'' (JBool True) ?a)) SoundVolume) = JNum (4/5)"
    by (simp only: prod.case)
  show ?thesis by (rule mp [OF r h])
qed

text \<open>
  C10. For each legacy mute event and its volume Property: when the Property holds a
  nonzero number \<open>v\<close> and the event arrives twice with payload \<open>true\<close>, the recorded
  previous value is then 0, and the event with payload \<open>false\<close> after that sets the
  Property to the default 1, whatever \<open>v\<close> was: \<open>v\<close> is not restored unless it was 1.
\<close>

theorem double_mute_restores_default:
  "\<forall>(mute, volume) \<in> set legacyListeners.
     val (state a volume) = JNum v \<and> v \<noteq> 0 \<longrightarrow>
       (let a2 = receive mute (JBool True) (receive mute (JBool True) a)
        in previousValue (state a2 volume) = JNum 0
           \<and> val (state (receive mute (JBool False) a2) volume) = JNum 1
           \<and> (v \<noteq> 1 \<longrightarrow> val (state (receive mute (JBool False) a2) volume) \<noteq> JNum v))"
proof (clarify)
  fix mute volume
  assume m: "(mute, volume) \<in> set legacyListeners"
    and v: "val (state a volume) = JNum v" "v \<noteq> 0"
  show "let a2 = receive mute (JBool True) (receive mute (JBool True) a)
        in previousValue (state a2 volume) = JNum 0
           \<and> val (state (receive mute (JBool False) a2) volume) = JNum 1
           \<and> (v \<noteq> 1 \<longrightarrow> val (state (receive mute (JBool False) a2) volume) \<noteq> JNum v)"
    by (simp add: receive_legacy [OF m] legacy_listener_val legacy_listener_previousValue
        js_or_def Let_def)
qed

theorem double_mute_restores_default_witness:
  "previousValue (state (receive ''musicMuted'' (JBool True) (receive ''musicMuted'' (JBool True)
         \<lparr>state = initial_state(MusicVolume := Property (JNum (1/2))),
          features = default_features, calls = [], debugger_log = [], hints = True\<rparr>))
       MusicVolume) = JNum 0
   \<and> val (state (receive ''musicMuted'' (JBool False)
        (receive ''musicMuted'' (JBool True) (receive ''musicMuted'' (JBool True)
         \<lparr>state = initial_state(MusicVolume := Property (JNum (1/2))),
          features = default_features, calls = [], debugger_log = [], hints = True\<rparr>)))
       MusicVolume) = JNum 1"
proof -
  let ?a = "\<lparr>state = initial_state(MusicVolume := Property (JNum (1/2))),
          features = default_features, calls = [], debugger_log = [], hints = True\<rparr>"
  have m: "(''musicMuted'', MusicVolume) \<in> set legacyListeners"
    by (simp add: legacyListeners_def)
  have h: "val (state ?a MusicVolume) = JNum (1/2) \<and> (1/2::real) \<noteq> 0"
    by (simp add: Property_def)
  from bspec [OF double_mute_restores_default [of ?a "1/2"] m]
  have r: "val (state ?a MusicVolume) = JNum (1/2) \<and> (1/2::real) \<noteq> 0 \<longrightarrow>
       previousValue (state (receive ''musicMuted'' (JBool True)
          (receive ''musicMuted'' (JBool True) ?a)) MusicVolume) = JNum 0
       \<and> val (state (receive ''musicMuted'' (JBool False)
            (receive ''musicMuted'' (JBool True) (receive ''musicMuted'' (JBool True) ?a)))
          MusicVolume) = JNum 1
       \<and> ((1/2::real) \<noteq> 1 \<longrightarrow> val (state (receive ''musicMuted'' (JBool False)
            (receive ''musicMuted'' (JBool True) (receive ''musicMuted'' (JBool True) ?a)))
          MusicVolume) \<noteq> JNum (1/2))"
    by (simp only: prod.case Let_def)
  from mp [OF r h] show ?thesis by blast
qed

section \<open>Listener validation and the startup chain\<close>

lemma collect_missing_eq:
  "collect_missing a kcs acc =
     acc @ map (\<lambda>(key, stateName). channel_name stateName)
             (filter (\<lambda>(key, stateName).
                truthy (get (features a) key) \<and> \<not> hasListeners (state a stateName)) kcs)"
  by (induction a kcs acc rule: collect_missing.induct) simp_all

lemma set_missingListeners:
  "set (missingListeners a) =
     channel_name ` {c.
        ((\<exists>k. (k, c) \<in> set featureToStateMap \<and> truthy (get (features a) k)) \<or> c = Pause)
        \<and> \<not> hasListeners (state a c)}"
proof -
  let ?A = "\<lambda>c. \<exists>k. (k, c) \<in> set featureToStateMap \<and> truthy (get (features a) k)"
  let ?H = "\<lambda>c. hasListeners (state a c)"
  have c: "set (collect_missing a featureToStateMap []) = channel_name ` {c. ?A c \<and> \<not> ?H c}"
    unfolding collect_missing_eq by force
  have s: "{c. (?A c \<or> c = Pause) \<and> \<not> ?H c}
      = {c. ?A c \<and> \<not> ?H c} \<union> (if ?H Pause then {} else {Pause})"
    by auto
  show ?thesis
    unfolding s image_Un missingListeners_def Let_def
    by (simp add: c)
qed

lemma sublist_join: "x \<in> set xs \<Longrightarrow> sublist x (join sep xs)"
proof (induction sep xs rule: join.induct)
  case (1 sep)
  then show ?case by simp
next
  case (2 sep y)
  then show ?case by simp
next
  case (3 sep y z zs)
  show ?case
  proof (cases "x = y")
    case True
    then show ?thesis by simp
  next
    case False
    with 3 have "sublist x (join sep (z # zs))" by simp
    then obtain ps ss where "join sep (z # zs) = ps @ x @ ss"
      unfolding sublist_def by blast
    then have "join sep (y # z # zs) = (y @ sep @ ps) @ x @ ss" by simp
    then show ?thesis unfolding sublist_def by blast
  qed
qed

lemma validateListeners_log [simp]:
  "validateListeners (Debugger_log l x a) = validateListeners a"
  by (simp add: validateListeners_def missingListeners_def Debugger_log_def collect_missing_eq)

lemma startup_chain_Fulfilled:
  "startup_chain Fulfilled a =
     (case validateListeners a of
        Inl e \<Rightarrow> (set_state Ready (JBool True) (container_call (Send ''loaded'' JUndefined)
                    (Debugger_log ''warn'' (LogErr e) a)), Fulfilled)
      | Inr u \<Rightarrow> (set_state Ready (JBool True) (container_call (Send ''loaded'' JUndefined) a),
                  Fulfilled))"
  by (simp add: startup_chain_def promise_catch_def promise_then_def split: sum.splits)

lemma startup_chain_Rejected:
  "startup_chain (Rejected e0) a = startup_chain Fulfilled (Debugger_log ''warn'' (LogErr e0) a)"
  by (simp add: startup_chain_def promise_catch_def promise_then_def split: sum.splits)

lemma startup_chain_Pending: "startup_chain Pending a = (a, Pending)"
  by (simp add: startup_chain_def promise_catch_def promise_then_def)

lemma sublist_in_message:
  "x \<in> set xs \<Longrightarrow> sublist x (pre @ join sep xs @ post)"
proof -
  assume "x \<in> set xs"
  then obtain ps ss where "join sep xs = ps @ x @ ss"
    using sublist_join [of x xs sep] unfolding sublist_def by blast
  then have "pre @ join sep xs @ post = (pre @ ps) @ x @ (ss @ post)" by simp
  then show ?thesis unfolding sublist_def by blast
qed

text \<open>
  C2 (as the code has it). When the set of channels that are required (the channel of
  an enabled feature, and \<open>pause\<close> always) and have no listener is non-empty,
  \<open>validateListeners\<close> throws one Error whose message is the fixed prefix, the names of
  exactly these channels joined by a comma and a space, and a full stop, so that each
  of them occurs in it. The startup chain catches that error and logs it as a warning:
  the chain is fulfilled, \<open>loaded\<close> is sent and \<open>ready\<close> is set to true, whether the
  plugin setup before it succeeded or failed (its error is then logged first).
\<close>

theorem missing_listeners_error_logged:
  assumes "{c. ((\<exists>k. (k, c) \<in> set featureToStateMap \<and> truthy (get (features a) k)) \<or> c = Pause)
              \<and> \<not> hasListeners (state a c)} \<noteq> {}"
  shows "let msg = ''Application state is missing required listeners: ''
                     @ join '', '' (missingListeners a) @ ''.''
         in validateListeners a = Inl (JSError Error msg)
            \<and> set (missingListeners a) = channel_name `
                 {c. ((\<exists>k. (k, c) \<in> set featureToStateMap \<and> truthy (get (features a) k))
                        \<or> c = Pause) \<and> \<not> hasListeners (state a c)}
            \<and> (\<forall>n \<in> set (missingListeners a). sublist n msg)
            \<and> startup_chain Fulfilled a =
                 (set_state Ready (JBool True) (container_call (Send ''loaded'' JUndefined)
                    (Debugger_log ''warn'' (LogErr (JSError Error msg)) a)), Fulfilled)
            \<and> (\<forall>e0. startup_chain (Rejected e0) a =
                 (set_state Ready (JBool True) (container_call (Send ''loaded'' JUndefined)
                    (Debugger_log ''warn'' (LogErr (JSError Error msg))
                       (Debugger_log ''warn'' (LogErr e0) a))), Fulfilled))"
proof -
  let ?msg = "''Application state is missing required listeners: ''
                     @ join '', '' (missingListeners a) @ ''.''"
  have ne: "missingListeners a \<noteq> []"
  proof
    assume "missingListeners a = []"
    then have "set (missingListeners a) = {}" by simp
    then have "{c. ((\<exists>k. (k, c) \<in> set featureToStateMap \<and> truthy (get (features a) k)) \<or> c = Pause)
              \<and> \<not> hasListeners (state a c)} = {}"
      by (simp only: set_missingListeners image_is_empty)
    with assms show False by (rule notE)
  qed
  then have v: "validateListeners a = Inl (JSError Error ?msg)"
    by (simp add: validateListeners_def)
  have s: "\<forall>n \<in> set (missingListeners a). sublist n ?msg"
    by (blast intro: sublist_in_message)
  have f: "startup_chain Fulfilled a =
                 (set_state Ready (JBool True) (container_call (Send ''loaded'' JUndefined)
                    (Debugger_log ''warn'' (LogErr (JSError Error ?msg)) a)), Fulfilled)"
    by (simp add: startup_chain_Fulfilled v)
  have m: "missingListeners (Debugger_log l x a) = missingListeners a" for l x
    by (simp add: missingListeners_def Debugger_log_def collect_missing_eq)
  have r: "startup_chain (Rejected e0) a =
                 (set_state Ready (JBool True) (container_call (Send ''loaded'' JUndefined)
                    (Debugger_log ''warn'' (LogErr (JSError Error ?msg))
                       (Debugger_log ''warn'' (LogErr e0) a))), Fulfilled)" for e0
    by (simp add: startup_chain_Rejected startup_chain_Fulfilled v)
  show ?thesis
    unfolding Let_def
    apply (intro conjI allI)
        apply (rule v)
       apply (rule set_missingListeners)
      apply (rule s)
     apply (rule f)
    apply (rule r)
    done
qed

theorem missing_listeners_error_logged_witness:
  "validateListeners (new_app (Some [(''sound'', JBool True)]))
     = Inl (JSError Error
         ''Application state is missing required listeners: soundVolume, pause.'')
   \<and> snd (startup_chain Fulfilled (new_app (Some [(''sound'', JBool True)]))) = Fulfilled"
proof -
  let ?a = "new_app (Some [(''sound'', JBool True)])"
  have h: "\<not> hasListeners (state ?a Pause)" by code_simp
  then have ne: "{c. ((\<exists>k. (k, c) \<in> set featureToStateMap \<and> truthy (get (features ?a) k)) \<or> c = Pause)
              \<and> \<not> hasListeners (state ?a c)} \<noteq> {}"
    by blast
  have j: "''Application state is missing required listeners: ''
             @ join '', '' (missingListeners ?a) @ ''.''
           = ''Application state is missing required listeners: soundVolume, pause.''"
    by code_simp
  from missing_listeners_error_logged [OF ne] show ?thesis
    unfolding Let_def j by simp
qed

text \<open>
  The constructor with features \<open>{sound: true}\<close>, no query string, and one registered
  plugin whose init hook subscribes to \<open>pause\<close>: nothing listens to \<open>soundVolume\<close>, the
  error of \<open>validateListeners\<close> names it and is logged as a warning, and startup
  completes: the chain is fulfilled, \<open>loaded\<close> is the last call on the container and
  \<open>ready\<close> is true.
\<close>

theorem missing_listener_not_fatal_counterexample:
  "(case Application
      \<lparr>location_search = [], decodeURIComponent = Inr,
       JSON_parse = (\<lambda>s. Inl (JSError SyntaxError ''Unexpected end of JSON input'')),
       settle_order = [0]\<rparr>
      (Some [(''sound'', JBool True)]) True
      [\<lparr>name = ''pauser'', preload = Some Resolves,
        init = Some (\<lambda>a. (a\<lparr>state := (state a)(Pause := subscribe 0 (state a Pause))\<rparr>, None)),
        start = Some (\<lambda>a. (a, None)), preloadFailed = False\<rparr>]
    of (result, trace, plugins, a) \<Rightarrow>
      (result, trace, hasListeners (state a SoundVolume), debugger_log a, last (calls a),
       val (state a Ready)))
   = (Constructed Fulfilled,
      [PreloadCalled 0, PreloadResolved 0, InitCalled ''pauser'', StartCalled ''pauser''],
      False,
      [(''warn'', LogErr (JSError Error
          ''Application state is missing required listeners: soundVolume.''))],
      Send ''loaded'' JUndefined,
      JBool True)"
  by code_simp

section \<open>Reading the play options\<close>

lemma container_call_fields [simp]:
  "state (container_call c a) = state a"
  "features (container_call c a) = features a"
  "debugger_log (container_call c a) = debugger_log a"
  "hints (container_call c a) = hints a"
  "calls (container_call c a) = calls a @ [c]"
  by (simp_all add: container_call_def)

lemma Debugger_log_fields [simp]:
  "state (Debugger_log l x a) = state a"
  "features (Debugger_log l x a) = features a"
  "calls (Debugger_log l x a) = calls a"
  "hints (Debugger_log l x a) = hints a"
  "debugger_log (Debugger_log l x a) = debugger_log a @ [(l, x)]"
  by (simp_all add: Debugger_log_def)


lemma regex_exec_sublist: "regex_exec s \<noteq> None \<longleftrightarrow> sublist ''playOptions='' s"
proof (induction s)
  case Nil
  then show ?case by simp
next
  case (Cons c cs)
  have "sublist ''playOptions='' (c # cs)
          \<longleftrightarrow> prefix ''playOptions='' (c # cs) \<or> sublist ''playOptions='' cs"
    by (rule sublist_Cons_right)
  moreover have "prefix ''playOptions='' (c # cs)
          \<longleftrightarrow> take (length ''playOptions='') (c # cs) = ''playOptions=''"
    by (metis append_eq_conv_conj prefix_def)
  ultimately show ?case using Cons.IH by auto
qed

lemma takeWhile_all: "\<forall>x \<in> set (takeWhile P xs). P x"
  by (auto dest: set_takeWhileD)

lemma regex_exec_token:
  "regex_exec s = Some t \<Longrightarrow>
     \<exists>v. t = ''playOptions='' @ v \<and> (\<forall>c \<in> set v. c \<noteq> CHR ''&'' \<and> c \<noteq> CHR ''$'')"
proof (induction s)
  case Nil
  then show ?case by simp
next
  case (Cons c cs)
  let ?v = "takeWhile (\<lambda>x. x \<noteq> CHR ''&'' \<and> x \<noteq> CHR ''$'')
                 (drop (length ''playOptions='') (c # cs))"
  show ?case
  proof (cases "take (length ''playOptions='') (c # cs) = ''playOptions=''")
    case True
    then have "regex_exec (c # cs) = Some (''playOptions='' @ ?v)"
      by (simp only: regex_exec.simps if_True simp_thms)
    with Cons.prems have t: "t = ''playOptions='' @ ?v" by (simp only: option.inject)
    have "\<forall>c \<in> set ?v. c \<noteq> CHR ''&'' \<and> c \<noteq> CHR ''$''"
      by (rule takeWhile_all)
    with t show ?thesis by (intro exI [of _ ?v] conjI)
  next
    case False
    then have "regex_exec (c # cs) = regex_exec cs"
      by (simp only: regex_exec.simps if_False)
    with Cons show ?thesis by (simp only:)
  qed
qed






lemma query_playOptions_URIError:
  assumes "regex_exec (location_search b) = Some matchedToken"
    and "decodeURIComponent b (second_part (split CHR ''='' matchedToken)) = Inl e"
  shows "query_playOptions b a = Inl e"
  using assms by (simp add: query_playOptions_def)









section \<open>Plugin lifecycle: a missing hook\<close>

text \<open>
  C1 (the code at three registries of two descriptors, the first lacking one hook, the
  second exposing all three; both preloads resolve, no hook throws). A descriptor
  without a preload hook ends \<open>setupPlugins\<close>: it returns \<open>undefined\<close> and no hook of
  the second descriptor is called. A descriptor without an init hook ends the callback:
  the second descriptor's init and start hooks are not called. A descriptor without a
  start hook ends the start loop: the second descriptor's start hook is not called.
\<close>

theorem missing_hook_ends_the_phase:
  "(case setupPlugins [0, 1]
      [\<lparr>name = ''a'', preload = None, init = Some (\<lambda>a. (a, None)),
         start = Some (\<lambda>a. (a, None)), preloadFailed = False\<rparr>,
       \<lparr>name = ''b'', preload = Some Resolves, init = Some (\<lambda>a. (a, None)),
         start = Some (\<lambda>a. (a, None)), preloadFailed = False\<rparr>]
      (new_app None)
    of (trace, plugins, a, r) \<Rightarrow> (trace, map name plugins, r))
   = ([], [''a'', ''b''], ReturnsUndefined)
   \<and> (case setupPlugins [0, 1]
      [\<lparr>name = ''a'', preload = Some Resolves, init = None,
         start = Some (\<lambda>a. (a, None)), preloadFailed = False\<rparr>,
       \<lparr>name = ''b'', preload = Some Resolves, init = Some (\<lambda>a. (a, None)),
         start = Some (\<lambda>a. (a, None)), preloadFailed = False\<rparr>]
      (new_app None)
    of (trace, plugins, a, r) \<Rightarrow> (trace, map name plugins, r))
   = ([PreloadCalled 0, PreloadCalled 1, PreloadResolved 0, PreloadResolved 1],
      [''a'', ''b''], ReturnsPromise Fulfilled)
   \<and> (case setupPlugins [0, 1]
      [\<lparr>name = ''a'', preload = Some Resolves, init = Some (\<lambda>a. (a, None)),
         start = None, preloadFailed = False\<rparr>,
       \<lparr>name = ''b'', preload = Some Resolves, init = Some (\<lambda>a. (a, None)),
         start = Some (\<lambda>a. (a, None)), preloadFailed = False\<rparr>]
      (new_app None)
    of (trace, plugins, a, r) \<Rightarrow> (trace, map name plugins, r))
   = ([PreloadCalled 0, PreloadCalled 1, PreloadResolved 0, PreloadResolved 1,
       InitCalled ''a'', InitCalled ''b''],
      [''a'', ''b''], ReturnsPromise Fulfilled)"
  by code_simp

lemma startup_chain_settled:
  assumes "p \<noteq> Pending"
  shows "snd (startup_chain p a) = Fulfilled
         \<and> last (calls (fst (startup_chain p a))) = Send ''loaded'' JUndefined
         \<and> val (state (fst (startup_chain p a)) Ready) = JBool True
         \<and> (\<forall>x \<in> set (debugger_log (fst (startup_chain p a))) - set (debugger_log a).
               fst x = ''warn'')"
proof (cases p)
  case Fulfilled
  then show ?thesis
    by (auto simp: startup_chain_Fulfilled set_state_def set_value_def split: sum.splits)
next
  case (Rejected e)
  then show ?thesis
    by (auto simp: startup_chain_Rejected startup_chain_Fulfilled set_state_def set_value_def
        split: sum.splits)
next
  case Pending
  with assms show ?thesis by simp
qed

text \<open>
  C9 (the code at a registry holding one descriptor without a preload hook, no query
  string, no features). \<open>setupPlugins\<close> returns \<open>undefined\<close>, so the constructor throws a
  TypeError where it calls \<open>catch\<close> on the result: the chain is never built, no
  \<open>loaded\<close> event is sent and \<open>ready\<close> stays false.
\<close>

theorem constructor_throws_on_missing_preload:
  "(case Application
      \<lparr>location_search = [], decodeURIComponent = Inr,
       JSON_parse = (\<lambda>s. Inl (JSError SyntaxError ''Unexpected end of JSON input'')),
       settle_order = []\<rparr>
      None True
      [\<lparr>name = ''ticker'', preload = None,
        init = Some (\<lambda>a. (a\<lparr>state := (state a)(Pause := subscribe 0 (state a Pause))\<rparr>, None)),
        start = Some (\<lambda>a. (a, None)), preloadFailed = False\<rparr>]
    of (result, trace, plugins, a) \<Rightarrow>
      (result, trace, Send ''loaded'' JUndefined \<in> set (calls a), val (state a Ready),
       debugger_log a))
   = (ConstructorThrew (JSError TypeError
        ''Cannot read properties of undefined (reading 'catch')''),
      [], False, JBool False, [])"
  by code_simp

section \<open>Plugin lifecycle: launching and settling the preloads\<close>

lemma returns_promise_iff:
  "returns_promise p \<longleftrightarrow> preload p = Some Resolves \<or> (\<exists>e. preload p = Some (Rejects e))"
  by (simp add: returns_promise_def split: option.splits preload_result.splits)

lemma preload_rejects_iff: "preload_rejects p \<longleftrightarrow> (\<exists>e. preload p = Some (Rejects e))"
  by (simp add: preload_rejects_def split: option.splits preload_result.splits)

lemma launch_preloads_Cons:
  "returns_promise p \<Longrightarrow>
     launch_preloads (p # ps) i =
       (case launch_preloads ps (Suc i) of (t, n, x) \<Rightarrow> (PreloadCalled i # t, n, x))"
  by (auto simp: returns_promise_iff)

lemma launch_preloads_Cons_not:
  "\<not> returns_promise p \<Longrightarrow>
     \<exists>t x. launch_preloads (p # ps) i = (t, i, x) \<and> x \<noteq> AllLaunched \<and> set t \<subseteq> {PreloadCalled i}"
  by (auto simp: returns_promise_iff split: option.splits preload_result.splits)

lemma launch_preloads_events:
  "launch_preloads ps i = (t, n, x) \<Longrightarrow> e \<in> set t \<Longrightarrow> \<not> is_hook_call e \<and> \<not> settles j e"
proof (induction ps arbitrary: i t n x)
  case Nil
  then show ?case by simp
next
  case (Cons p ps)
  show ?case
  proof (cases "returns_promise p")
    case True
    obtain t1 n1 x1 where r: "launch_preloads ps (Suc i) = (t1, n1, x1)"
      by (cases "launch_preloads ps (Suc i)") auto
    with Cons.prems(1) have "t = PreloadCalled i # t1"
      unfolding launch_preloads_Cons [OF True] by simp
    with Cons.prems(2) Cons.IH [OF r] show ?thesis by auto
  next
    case False
    from launch_preloads_Cons_not [OF False, of ps i] Cons.prems show ?thesis by auto
  qed
qed

lemma launch_preloads_all:
  "list_all returns_promise ps \<Longrightarrow>
     launch_preloads ps i = (map PreloadCalled [i..<i + length ps], i + length ps, AllLaunched)"
proof (induction ps arbitrary: i)
  case Nil
  then show ?case by simp
next
  case (Cons p ps)
  then have r: "launch_preloads ps (Suc i)
      = (map PreloadCalled [Suc i..<Suc i + length ps], Suc i + length ps, AllLaunched)"
    by simp
  have u: "[i..<i + length (p # ps)] = i # [Suc i..<Suc i + length ps]"
    by (subst upt_rec) simp
  from Cons.prems have "returns_promise p" by simp
  then show ?case
    by (simp only: launch_preloads_Cons r u prod.case list.map) simp
qed

lemma launch_preloads_AllLaunched:
  "launch_preloads ps i = (t, n, AllLaunched) \<Longrightarrow> list_all returns_promise ps"
proof (induction ps arbitrary: i t n)
  case Nil
  then show ?case by simp
next
  case (Cons p ps)
  show ?case
  proof (cases "returns_promise p")
    case True
    obtain t1 n1 x1 where r: "launch_preloads ps (Suc i) = (t1, n1, x1)"
      by (cases "launch_preloads ps (Suc i)") auto
    with Cons.prems have "x1 = AllLaunched"
      unfolding launch_preloads_Cons [OF True] by simp
    with r Cons.IH have "list_all returns_promise ps" by blast
    with True show ?thesis by simp
  next
    case False
    from launch_preloads_Cons_not [OF False, of ps i] Cons.prems show ?thesis by auto
  qed
qed

lemma settle_preloads_skip:
  "\<not> (i < n \<and> i < length ps \<and> i \<notin> set settled \<and> returns_promise (ps ! i)) \<Longrightarrow>
     settle_preloads n (i # sched) settled ps = settle_preloads n sched settled ps"
  by (auto simp: returns_promise_iff split: option.splits preload_result.splits)

lemma settle_preloads_Resolves:
  "i < n \<Longrightarrow> i < length ps \<Longrightarrow> i \<notin> set settled \<Longrightarrow> preload (ps ! i) = Some Resolves \<Longrightarrow>
     settle_preloads n (i # sched) settled ps =
       (case settle_preloads n sched (i # settled) ps of
          (s, ps1, t) \<Rightarrow> (s, ps1, PreloadResolved i # t))"
  by simp

lemma settle_preloads_Rejects:
  "i < n \<Longrightarrow> i < length ps \<Longrightarrow> i \<notin> set settled \<Longrightarrow> preload (ps ! i) = Some (Rejects e) \<Longrightarrow>
     settle_preloads n (i # sched) settled ps =
       (case settle_preloads n sched (i # settled) (ps[i := (ps ! i)\<lparr>preloadFailed := True\<rparr>]) of
          (s, ps1, t) \<Rightarrow> (s, ps1, PreloadFailed i (name (ps ! i)) e # t))"
  by (simp add: preloadFail_def)

lemma settle_preloads_induct [consumes 1, case_names Nil Skip Resolves Rejects]:
  assumes "settle_preloads n sched settled ps = (s, ps1, t)"
    and nil: "\<And>settled ps. P [] settled ps settled ps []"
    and skip: "\<And>i sched settled ps s ps1 t.
        \<not> (i < n \<and> i < length ps \<and> i \<notin> set settled \<and> returns_promise (ps ! i)) \<Longrightarrow>
        settle_preloads n sched settled ps = (s, ps1, t) \<Longrightarrow>
        P sched settled ps s ps1 t \<Longrightarrow> P (i # sched) settled ps s ps1 t"
    and resolves: "\<And>i sched settled ps s ps1 t.
        i < n \<Longrightarrow> i < length ps \<Longrightarrow> i \<notin> set settled \<Longrightarrow> preload (ps ! i) = Some Resolves \<Longrightarrow>
        settle_preloads n sched (i # settled) ps = (s, ps1, t) \<Longrightarrow>
        P sched (i # settled) ps s ps1 t \<Longrightarrow>
        P (i # sched) settled ps s ps1 (PreloadResolved i # t)"
    and rejects: "\<And>i e sched settled ps s ps1 t.
        i < n \<Longrightarrow> i < length ps \<Longrightarrow> i \<notin> set settled \<Longrightarrow>
        preload (ps ! i) = Some (Rejects e) \<Longrightarrow>
        settle_preloads n sched (i # settled) (ps[i := (ps ! i)\<lparr>preloadFailed := True\<rparr>])
          = (s, ps1, t) \<Longrightarrow>
        P sched (i # settled) (ps[i := (ps ! i)\<lparr>preloadFailed := True\<rparr>]) s ps1 t \<Longrightarrow>
        P (i # sched) settled ps s ps1 (PreloadFailed i (name (ps ! i)) e # t)"
  shows "P sched settled ps s ps1 t"
  using assms(1)
proof (induction sched arbitrary: settled ps s ps1 t)
  case Nil
  then show ?case using nil by simp
next
  case (Cons i sched)
  show ?case
  proof (cases "i < n \<and> i < length ps \<and> i \<notin> set settled \<and> returns_promise (ps ! i)")
    case False
    from Cons.prems have r: "settle_preloads n sched settled ps = (s, ps1, t)"
      unfolding settle_preloads_skip [OF False] .
    from skip [OF False r Cons.IH [OF r]] show ?thesis .
  next
    case True
    then have c: "i < n" "i < length ps" "i \<notin> set settled" by simp_all
    from True consider "preload (ps ! i) = Some Resolves"
      | e where "preload (ps ! i) = Some (Rejects e)"
      by (auto simp: returns_promise_iff)
    then show ?thesis
    proof cases
      case 1
      obtain s' ps' t' where r: "settle_preloads n sched (i # settled) ps = (s', ps', t')"
        by (cases "settle_preloads n sched (i # settled) ps") auto
      with Cons.prems have "s = s'" "ps1 = ps'" "t = PreloadResolved i # t'"
        unfolding settle_preloads_Resolves [OF c 1] by simp_all
      with resolves [OF c 1 r Cons.IH [OF r]] show ?thesis by simp
    next
      case (2 e)
      obtain s' ps' t' where r:
        "settle_preloads n sched (i # settled) (ps[i := (ps ! i)\<lparr>preloadFailed := True\<rparr>])
           = (s', ps', t')"
        by (cases "settle_preloads n sched (i # settled)
                     (ps[i := (ps ! i)\<lparr>preloadFailed := True\<rparr>])") auto
      with Cons.prems have "s = s'" "ps1 = ps'" "t = PreloadFailed i (name (ps ! i)) e # t'"
        unfolding settle_preloads_Rejects [OF c 2] by simp_all
      with rejects [OF c 2 r Cons.IH [OF r]] show ?thesis by simp
    qed
  qed
qed

lemma settle_preloads_length:
  "settle_preloads n sched settled ps = (s, ps1, t) \<Longrightarrow> length ps1 = length ps"
  by (induction sched settled ps s ps1 t rule: settle_preloads_induct) simp_all

lemma settle_preloads_settled:
  "settle_preloads n sched settled ps = (s, ps1, t) \<Longrightarrow>
     set s = set settled
       \<union> {i \<in> set sched. i < n \<and> i < length ps \<and> returns_promise (ps ! i)}"
proof (induction sched settled ps s ps1 t rule: settle_preloads_induct)
  case (Nil settled ps)
  then show ?case by simp
next
  case (Skip i sched settled ps s ps1 t)
  then show ?case by auto
next
  case (Resolves i sched settled ps s ps1 t)
  then show ?case by (auto simp: returns_promise_iff)
next
  case (Rejects i e sched settled ps s ps1 t)
  have "returns_promise (ps[i := (ps ! i)\<lparr>preloadFailed := True\<rparr>] ! j) = returns_promise (ps ! j)"
    if "j < length ps" for j
    using that by (cases "j = i") (simp_all add: returns_promise_def)
  with Rejects show ?case by (auto simp: returns_promise_iff)
qed

lemma settle_preloads_nth:
  "settle_preloads n sched settled ps = (s, ps1, t) \<Longrightarrow> j < length ps \<Longrightarrow>
     ps1 ! j = (if j \<in> set s \<and> j \<notin> set settled \<and> preload_rejects (ps ! j)
                then (ps ! j)\<lparr>preloadFailed := True\<rparr> else ps ! j)"
proof (induction sched settled ps s ps1 t rule: settle_preloads_induct)
  case (Nil settled ps)
  then show ?case by auto
next
  case (Skip i sched settled ps s ps1 t)
  then show ?case by simp
next
  case (Resolves i sched settled ps s ps1 t)
  then show ?case by (auto simp: preload_rejects_iff)
next
  case (Rejects i e sched settled ps s ps1 t)
  from Rejects(5) have s: "i \<in> set s"
    by (simp add: settle_preloads_settled)
  show ?case
  proof (cases "j = i")
    case True
    with Rejects s show ?thesis by (simp add: preload_rejects_iff)
  next
    case False
    with Rejects show ?thesis by (simp add: preload_rejects_def)
  qed
qed

lemma settle_preloads_events:
  "settle_preloads n sched settled ps = (s, ps1, t) \<Longrightarrow>
     (\<forall>e \<in> set t. \<not> is_hook_call e)
     \<and> (\<forall>i \<in> set s - set settled. \<exists>e \<in> set t. settles i e)
     \<and> (\<forall>i \<in> set s - set settled. \<forall>err. preload (ps ! i) = Some (Rejects err) \<longrightarrow>
           PreloadFailed i (name (ps ! i)) err \<in> set t)
     \<and> (\<forall>i \<in> set s - set settled. preload (ps ! i) = Some Resolves \<longrightarrow>
           PreloadResolved i \<in> set t)"
proof (induction sched settled ps s ps1 t rule: settle_preloads_induct)
  case (Nil settled ps)
  then show ?case by simp
next
  case (Skip i sched settled ps s ps1 t)
  then show ?case by simp
next
  case (Resolves i sched settled ps s ps1 t)
  then show ?case by (auto 0 3)
next
  case (Rejects i e sched settled ps s ps1 t)
  have "preload (ps[i := (ps ! i)\<lparr>preloadFailed := True\<rparr>] ! k) = preload (ps ! k)
        \<and> name (ps[i := (ps ! i)\<lparr>preloadFailed := True\<rparr>] ! k) = name (ps ! k)" for k
    using Rejects(2) by (cases "k = i") simp_all
  with Rejects show ?case by (auto 0 3)
qed

section \<open>Plugin lifecycle: the callback\<close>

lemma init_names_append [simp]: "init_names (xs @ ys) = init_names xs @ init_names ys"
  by (induction xs rule: init_names.induct) simp_all

lemma start_names_append [simp]: "start_names (xs @ ys) = start_names xs @ start_names ys"
  by (induction xs rule: start_names.induct) simp_all

lemma init_names_no_hooks: "\<forall>e \<in> set t. \<not> is_hook_call e \<Longrightarrow> init_names t = []"
  by (induction t rule: init_names.induct) simp_all

lemma start_names_no_hooks: "\<forall>e \<in> set t. \<not> is_hook_call e \<Longrightarrow> start_names t = []"
  by (induction t rule: start_names.induct) simp_all

lemma names_of_init_calls [simp]:
  "init_names (map (InitCalled \<circ> f) xs) = map f xs"
  "start_names (map (InitCalled \<circ> f) xs) = []"
  "filter (Not \<circ> is_hook_call) (map (InitCalled \<circ> f) xs) = []"
  by (induction xs) simp_all

lemma names_of_start_calls [simp]:
  "start_names (map (StartCalled \<circ> f) xs) = map f xs"
  "init_names (map (StartCalled \<circ> f) xs) = []"
  "filter (Not \<circ> is_hook_call) (map (StartCalled \<circ> f) xs) = []"
  by (induction xs) simp_all

lemma init_loop_trace:
  "init_loop ps a = (t, a1, x) \<Longrightarrow>
     \<exists>k \<le> length ps. t = map (InitCalled \<circ> name) (take k ps) \<and> (x = LoopDone \<longrightarrow> k = length ps)"
proof (induction ps arbitrary: a t a1 x)
  case Nil
  then show ?case by simp
next
  case (Cons p ps)
  show ?case
  proof (cases "init p")
    case None
    with Cons.prems have "t = []" "x = EarlyReturn" by simp_all
    then show ?thesis by (intro exI [of _ 0]) simp
  next
    case (Some h)
    obtain a2 thrown where h: "h a = (a2, thrown)" by (cases "h a") auto
    show ?thesis
    proof (cases thrown)
      case (Some e)
      with Cons.prems \<open>init p = Some h\<close> h have "t = [InitCalled (name p)]" "x = HookThrew e"
        by simp_all
      then show ?thesis by (intro exI [of _ 1]) simp
    next
      case None
      obtain t' a' x' where r: "init_loop ps a2 = (t', a', x')"
        by (cases "init_loop ps a2") auto
      with Cons.prems \<open>init p = Some h\<close> h None
      have tx: "t = InitCalled (name p) # t'" "x = x'" by simp_all
      from Cons.IH [OF r] obtain k where
        "k \<le> length ps" "t' = map (InitCalled \<circ> name) (take k ps)" "x' = LoopDone \<longrightarrow> k = length ps"
        by blast
      with tx show ?thesis by (intro exI [of _ "Suc k"]) simp
    qed
  qed
qed

lemma start_loop_trace:
  "start_loop ps a = (t, a1, x) \<Longrightarrow>
     \<exists>l \<le> length ps. t = map (StartCalled \<circ> name) (take l ps)"
proof (induction ps arbitrary: a t a1 x)
  case Nil
  then show ?case by simp
next
  case (Cons p ps)
  show ?case
  proof (cases "start p")
    case None
    with Cons.prems have "t = []" by simp
    then show ?thesis by (intro exI [of _ 0]) simp
  next
    case (Some h)
    obtain a2 thrown where h: "h a = (a2, thrown)" by (cases "h a") auto
    show ?thesis
    proof (cases thrown)
      case (Some e)
      with Cons.prems \<open>start p = Some h\<close> h have "t = [StartCalled (name p)]"
        by simp
      then show ?thesis by (intro exI [of _ 1]) simp
    next
      case None
      obtain t' a' x' where r: "start_loop ps a2 = (t', a', x')"
        by (cases "start_loop ps a2") auto
      with Cons.prems \<open>start p = Some h\<close> h None
      have tx: "t = StartCalled (name p) # t'" by simp
      from Cons.IH [OF r] obtain l where
        "l \<le> length ps" "t' = map (StartCalled \<circ> name) (take l ps)"
        by blast
      with tx show ?thesis by (intro exI [of _ "Suc l"]) simp
    qed
  qed
qed

lemma then_callback_trace:
  assumes "then_callback ps a = (t, ps1, a1, thrown)"
  shows "ps1 = filter (\<lambda>p. \<not> preloadFailed p) ps
         \<and> (\<exists>k l. k \<le> length ps1 \<and> l \<le> length ps1
               \<and> t = map (InitCalled \<circ> name) (take k ps1) @ map (StartCalled \<circ> name) (take l ps1)
               \<and> (0 < l \<longrightarrow> k = length ps1))"
proof -
  let ?hs = "filter (\<lambda>p. \<not> preloadFailed p) ps"
  obtain t1 a2 x where i: "init_loop ?hs a = (t1, a2, x)"
    by (cases "init_loop ?hs a") auto
  from init_loop_trace [OF i] obtain k where
    k: "k \<le> length ?hs" "t1 = map (InitCalled \<circ> name) (take k ?hs)" "x = LoopDone \<longrightarrow> k = length ?hs"
    by blast
  obtain t2 a3 y where s: "start_loop ?hs a2 = (t2, a3, y)"
    by (cases "start_loop ?hs a2") auto
  from start_loop_trace [OF s] obtain l where
    l: "l \<le> length ?hs" "t2 = map (StartCalled \<circ> name) (take l ?hs)"
    by blast
  from assms i have p: "ps1 = ?hs"
    by (auto simp: then_callback_def Let_def split: loop_exit.splits prod.splits)
  show ?thesis
  proof (cases "x = LoopDone")
    case True
    with assms i s have "t = t1 @ t2"
      by (auto simp: then_callback_def Let_def split: loop_exit.splits)
    with k l True p show ?thesis
      by (intro conjI exI [of _ k] exI [of _ l]) simp_all
  next
    case False
    with assms i have "t = t1"
      by (auto simp: then_callback_def Let_def split: loop_exit.splits)
    with k p show ?thesis
      by (intro conjI exI [of _ k] exI [of _ 0]) simp_all
  qed
qed

lemma setupPlugins_cases [consumes 1, case_names no_callback callback]:
  assumes "setupPlugins sched ds a = (trace, plugins, a1, r)"
  obtains
    (no_callback) t0 n x s t1 where
      "launch_preloads ds 0 = (t0, n, x)"
      "settle_preloads n sched [] ds = (s, plugins, t1)"
      "trace = t0 @ t1" "a1 = a"
      "r = ReturnsUndefined \<or> (\<exists>e. r = Throws e) \<or> r = ReturnsPromise Pending"
  | (callback) s ps1 t1 t2 thrown where
      "list_all returns_promise ds"
      "settle_preloads (length ds) sched [] ds = (s, ps1, t1)"
      "\<forall>i < length ds. i \<in> set s"
      "then_callback ps1 a = (t2, plugins, a1, thrown)"
      "trace = map PreloadCalled [0..<length ds] @ t1 @ t2"
      "r = ReturnsPromise (case thrown of None \<Rightarrow> Fulfilled | Some e \<Rightarrow> Rejected e)"
proof -
  obtain t0 n x where l: "launch_preloads ds 0 = (t0, n, x)"
    by (cases "launch_preloads ds 0") auto
  obtain s ps1 t1 where s: "settle_preloads n sched [] ds = (s, ps1, t1)"
    by (cases "settle_preloads n sched [] ds") auto
  show thesis
  proof (cases x)
    case NoPreloadHook
    with assms l s have "trace = t0 @ t1" "plugins = ps1" "a1 = a" "r = ReturnsUndefined"
      by (simp_all add: setupPlugins_def)
    with l s show thesis by (intro no_callback [of t0 n x s t1]) simp_all
  next
    case (PreloadThrew e)
    with assms l s have "trace = t0 @ t1" "plugins = ps1" "a1 = a" "r = Throws e"
      by (simp_all add: setupPlugins_def)
    with l s show thesis by (intro no_callback [of t0 n x s t1]) simp_all
  next
    case AllLaunched
    with l have all: "list_all returns_promise ds"
      by (simp add: launch_preloads_AllLaunched)
    from launch_preloads_all [OF all, of 0] l
    have n: "n = length ds" and t0: "t0 = map PreloadCalled [0..<length ds]" by simp_all
    show thesis
    proof (cases "list_all (\<lambda>i. i \<in> set s) [0..<n]")
      case False
      with assms l s AllLaunched
      have "trace = t0 @ t1" "plugins = ps1" "a1 = a" "r = ReturnsPromise Pending"
        by (simp_all add: setupPlugins_def all_preloads_then_def)
      with l s show thesis by (intro no_callback [of t0 n x s t1]) simp_all
    next
      case True
      obtain t2 ps2 a2 thrown where c: "then_callback ps1 a = (t2, ps2, a2, thrown)"
        by (cases "then_callback ps1 a") auto
      with assms l s AllLaunched True
      have "trace = t0 @ t1 @ t2" "plugins = ps2" "a1 = a2"
        "r = ReturnsPromise (case thrown of None \<Rightarrow> Fulfilled | Some e \<Rightarrow> Rejected e)"
        by (simp_all add: setupPlugins_def all_preloads_then_def)
      moreover from True n have "\<forall>i < length ds. i \<in> set s"
        by (simp add: list_all_iff)
      ultimately show thesis
        using all s c n t0 by (intro callback [of s ps1 t1 t2 thrown]) simp_all
    qed
  qed
qed

lemma subseq_filter_unchanged:
  "length xs = length ys \<Longrightarrow> (\<forall>j < length xs. P (xs ! j) \<longrightarrow> xs ! j = ys ! j) \<Longrightarrow>
     subseq (filter P xs) ys"
proof (induction xs ys rule: list_induct2)
  case Nil
  then show ?case by simp
next
  case (Cons x xs y ys)
  from Cons.prems have "\<forall>j < length xs. P (xs ! j) \<longrightarrow> xs ! j = ys ! j" by auto
  with Cons.IH have s: "subseq (filter P xs) ys" by simp
  show ?case
  proof (cases "P x")
    case True
    with Cons.prems have "x = y" by auto
    with True s show ?thesis by simp
  next
    case False
    with s show ?thesis by (simp add: list_emb_Cons)
  qed
qed

lemma settle_preloads_names:
  assumes "settle_preloads n sched settled ps = (s, ps1, t)"
  shows "map name ps1 = map name ps"
proof (rule nth_equalityI)
  from assms show "length (map name ps1) = length (map name ps)"
    by (simp add: settle_preloads_length)
next
  fix j assume "j < length (map name ps1)"
  with assms have j: "j < length ps" "j < length ps1" by (simp_all add: settle_preloads_length)
  with settle_preloads_nth [OF assms j(1)] show "map name ps1 ! j = map name ps ! j"
    by simp
qed

lemma settle_preloads_survivors:
  assumes "settle_preloads n sched settled ps = (s, ps1, t)"
  shows "subseq (filter (\<lambda>p. \<not> preloadFailed p) ps1) ps"
proof (rule subseq_filter_unchanged)
  from assms show "length ps1 = length ps" by (rule settle_preloads_length)
next
  show "\<forall>j < length ps1. \<not> preloadFailed (ps1 ! j) \<longrightarrow> ps1 ! j = ps ! j"
  proof (intro allI impI)
    fix j assume j: "j < length ps1" and f: "\<not> preloadFailed (ps1 ! j)"
    from j assms have "j < length ps" by (simp add: settle_preloads_length)
    from settle_preloads_nth [OF assms this] f show "ps1 ! j = ps ! j"
      by (auto split: if_splits)
  qed
qed

section \<open>Plugin lifecycle: order of the hooks\<close>

lemma fold_uses: "fold uses ds acc = acc @ ds"
  by (induction ds arbitrary: acc) (simp_all add: uses_def)

lemma no_hook_calls:
  assumes "\<forall>e \<in> set t. \<not> is_hook_call e"
  shows "filter (Not \<circ> is_hook_call) t = t" "init_names t = []" "start_names t = []"
  using assms by (simp_all add: init_names_no_hooks start_names_no_hooks)

lemma PreloadCalled_no_hook: "\<forall>e \<in> set (map PreloadCalled xs). \<not> is_hook_call e"
  by simp

text \<open>
  C4. For every list of descriptors registered through \<open>uses\<close>, every order in which
  the preloads settle and every application: the events of \<open>setupPlugins\<close> are the
  preload events, then the init calls, then the start calls; the names of the init
  calls, and of the start calls, are an initial part of the names of the final registry,
  which follow the order of registration; a start hook is called only once every init
  hook of the final registry has been; and when any init or start hook is called, the
  final registry is a subsequence of the registered descriptors and every registered
  descriptor's preload has been called and has settled before the first hook call.
\<close>

theorem hooks_in_registration_order:
  assumes "setupPlugins sched (fold uses ds []) a = (trace, plugins, a1, r)"
  shows "trace = filter (Not \<circ> is_hook_call) trace
                   @ map InitCalled (init_names trace) @ map StartCalled (start_names trace)
         \<and> prefix (init_names trace) (map name plugins)
         \<and> prefix (start_names trace) (map name plugins)
         \<and> subseq (map name plugins) (map name ds)
         \<and> (start_names trace \<noteq> [] \<longrightarrow> init_names trace = map name plugins)
         \<and> (init_names trace \<noteq> [] \<longrightarrow>
               subseq plugins ds
               \<and> (\<forall>i < length ds.
                     PreloadCalled i \<in> set (filter (Not \<circ> is_hook_call) trace)
                     \<and> (\<exists>e \<in> set (filter (Not \<circ> is_hook_call) trace). settles i e)))"
proof -
  from assms have "setupPlugins sched ds a = (trace, plugins, a1, r)"
    by (simp add: fold_uses)
  then show ?thesis
  proof (cases rule: setupPlugins_cases)
    case (no_callback t0 n x s t1)
    have "\<forall>e \<in> set t0. \<not> is_hook_call e"
      using launch_preloads_events [OF no_callback(1)] by blast
    moreover have "\<forall>e \<in> set t1. \<not> is_hook_call e"
      using settle_preloads_events [OF no_callback(2)] by blast
    ultimately have "\<forall>e \<in> set trace. \<not> is_hook_call e"
      using no_callback(3) by auto
    from no_hook_calls [OF this] settle_preloads_names [OF no_callback(2)]
    show ?thesis by simp
  next
    case (callback s ps1 t1 t2 thrown)
    let ?t0 = "map PreloadCalled [0..<length ds]"
    from then_callback_trace [OF callback(4)] obtain k l where
      hs: "plugins = filter (\<lambda>p. \<not> preloadFailed p) ps1"
      and kl: "k \<le> length plugins" "l \<le> length plugins" "0 < l \<longrightarrow> k = length plugins"
      and t2: "t2 = map (InitCalled \<circ> name) (take k plugins)
                    @ map (StartCalled \<circ> name) (take l plugins)"
      by blast
    have t1: "\<forall>e \<in> set t1. \<not> is_hook_call e"
      using settle_preloads_events [OF callback(2)] by blast
    then have pre: "\<forall>e \<in> set (?t0 @ t1). \<not> is_hook_call e" by auto
    have f: "filter (Not \<circ> is_hook_call) trace = ?t0 @ t1"
      using no_hook_calls(1) [OF pre] callback(5) t2 by simp
    have i: "init_names trace = map name (take k plugins)"
      using no_hook_calls(2) [OF pre] callback(5) t2 by simp
    have st: "start_names trace = map name (take l plugins)"
      using no_hook_calls(3) [OF pre] callback(5) t2 by simp
    have 1: "trace = filter (Not \<circ> is_hook_call) trace
                   @ map InitCalled (init_names trace) @ map StartCalled (start_names trace)"
      unfolding f i st using callback(5) t2 by simp
    have 2: "prefix (init_names trace) (map name plugins)"
      "prefix (start_names trace) (map name plugins)"
      unfolding i st by (simp_all add: take_is_prefix map_mono_prefix)
    have sub: "subseq plugins ds"
      unfolding hs by (rule settle_preloads_survivors [OF callback(2)])
    then have 3: "subseq (map name plugins) (map name ds)"
      by (rule subseq_map)
    have 4: "start_names trace \<noteq> [] \<longrightarrow> init_names trace = map name plugins"
    proof
      assume "start_names trace \<noteq> []"
      with st have "0 < l" by (cases l) simp_all
      with kl i show "init_names trace = map name plugins" by simp
    qed
    have 5: "\<forall>i < length ds.
                     PreloadCalled i \<in> set (filter (Not \<circ> is_hook_call) trace)
                     \<and> (\<exists>e \<in> set (filter (Not \<circ> is_hook_call) trace). settles i e)"
    proof (intro allI impI)
      fix j assume j: "j < length ds"
      with callback(3) have "j \<in> set s - set []" by simp
      with settle_preloads_events [OF callback(2)] obtain e where "e \<in> set t1" "settles j e"
        by blast
      with j show "PreloadCalled j \<in> set (filter (Not \<circ> is_hook_call) trace)
                     \<and> (\<exists>e \<in> set (filter (Not \<circ> is_hook_call) trace). settles j e)"
        unfolding f by auto
    qed
    from 1 2 3 4 5 sub show ?thesis by blast
  qed
qed


theorem hooks_in_registration_order_witness:
  "fst (setupPlugins [2, 0, 1]
     (fold uses
       [\<lparr>name = ''a'', preload = Some Resolves, init = Some (\<lambda>a. (a, None)),
          start = Some (\<lambda>a. (a, None)), preloadFailed = False\<rparr>,
        \<lparr>name = ''b'', preload = Some (Rejects (JSError Error ''offline'')),
          init = Some (\<lambda>a. (a, None)), start = Some (\<lambda>a. (a, None)),
          preloadFailed = False\<rparr>,
        \<lparr>name = ''c'', preload = Some Resolves, init = Some (\<lambda>a. (a, None)),
          start = Some (\<lambda>a. (a, None)), preloadFailed = False\<rparr>] [])
     (new_app None))
   = [PreloadCalled 0, PreloadCalled 1, PreloadCalled 2,
      PreloadResolved 2, PreloadResolved 0, PreloadFailed 1 ''b'' (JSError Error ''offline''),
      InitCalled ''a'', InitCalled ''c'', StartCalled ''a'', StartCalled ''c'']
   \<and> subseq
     (fst (snd (setupPlugins [2, 0, 1]
       (fold uses
         [\<lparr>name = ''a'', preload = Some Resolves, init = Some (\<lambda>a. (a, None)),
            start = Some (\<lambda>a. (a, None)), preloadFailed = False\<rparr>,
          \<lparr>name = ''b'', preload = Some (Rejects (JSError Error ''offline'')),
            init = Some (\<lambda>a. (a, None)), start = Some (\<lambda>a. (a, None)),
            preloadFailed = False\<rparr>,
          \<lparr>name = ''c'', preload = Some Resolves, init = Some (\<lambda>a. (a, None)),
            start = Some (\<lambda>a. (a, None)), preloadFailed = False\<rparr>] [])
       (new_app None))))
     [\<lparr>name = ''a'', preload = Some Resolves, init = Some (\<lambda>a. (a, None)),
        start = Some (\<lambda>a. (a, None)), preloadFailed = False\<rparr>,
      \<lparr>name = ''b'', preload = Some (Rejects (JSError Error ''offline'')),
        init = Some (\<lambda>a. (a, None)), start = Some (\<lambda>a. (a, None)),
        preloadFailed = False\<rparr>,
      \<lparr>name = ''c'', preload = Some Resolves, init = Some (\<lambda>a. (a, None)),
        start = Some (\<lambda>a. (a, None)), preloadFailed = False\<rparr>]
   \<and> map name
     (fst (snd (setupPlugins [2, 0, 1]
       (fold uses
         [\<lparr>name = ''a'', preload = Some Resolves, init = Some (\<lambda>a. (a, None)),
            start = Some (\<lambda>a. (a, None)), preloadFailed = False\<rparr>,
          \<lparr>name = ''b'', preload = Some (Rejects (JSError Error ''offline'')),
            init = Some (\<lambda>a. (a, None)), start = Some (\<lambda>a. (a, None)),
            preloadFailed = False\<rparr>,
          \<lparr>name = ''c'', preload = Some Resolves, init = Some (\<lambda>a. (a, None)),
            start = Some (\<lambda>a. (a, None)), preloadFailed = False\<rparr>] [])
       (new_app None)))) = [''a'', ''c'']"
proof -
  let ?D = "[\<lparr>name = ''a'', preload = Some Resolves, init = Some (\<lambda>a. (a, None)),
        start = Some (\<lambda>a. (a, None)), preloadFailed = False\<rparr>,
      \<lparr>name = ''b'', preload = Some (Rejects (JSError Error ''offline'')),
        init = Some (\<lambda>a. (a, None)), start = Some (\<lambda>a. (a, None)),
        preloadFailed = False\<rparr>,
      \<lparr>name = ''c'', preload = Some Resolves, init = Some (\<lambda>a. (a, None)),
        start = Some (\<lambda>a. (a, None)), preloadFailed = False\<rparr>]"
  let ?X = "setupPlugins [2, 0, 1] (fold uses ?D []) (new_app None)"
  have ev: "?X = (fst ?X, fst (snd ?X), fst (snd (snd ?X)), snd (snd (snd ?X)))"
    by simp
  have t: "fst ?X = [PreloadCalled 0, PreloadCalled 1, PreloadCalled 2,
      PreloadResolved 2, PreloadResolved 0, PreloadFailed 1 ''b'' (JSError Error ''offline''),
      InitCalled ''a'', InitCalled ''c'', StartCalled ''a'', StartCalled ''c'']"
    by code_simp
  have i: "init_names (fst ?X) \<noteq> []" "start_names (fst ?X) \<noteq> []"
    unfolding t by simp_all
  from hooks_in_registration_order [OF ev] i
  have "subseq (fst (snd ?X)) ?D" "init_names (fst ?X) = map name (fst (snd ?X))"
    by blast+
  then have "subseq (fst (snd ?X)) ?D" "map name (fst (snd ?X)) = [''a'', ''c'']"
    unfolding t by simp_all
  with t show ?thesis by (intro conjI)
qed

section \<open>Plugin lifecycle: a preload that rejects\<close>

lemma distinct_names_nth:
  assumes "distinct (map name ds)" "k < length ds"
  shows "name (ds ! k) \<notin> name ` set (take k ds @ drop (Suc k) ds)"
proof -
  from assms(2) have "ds = take k ds @ ds ! k # drop (Suc k) ds"
    by (rule id_take_nth_drop)
  then have "map name ds = map name (take k ds) @ name (ds ! k) # map name (drop (Suc k) ds)"
    by (metis list.simps(9) map_append)
  with assms(1) have "distinct (map name (take k ds) @ name (ds ! k) # map name (drop (Suc k) ds))"
    by simp
  then show ?thesis by auto
qed

text \<open>
  C3. For every registry in which each descriptor has a preload hook, the promise of
  exactly one (index \<open>k\<close>) rejects and all others resolve, with distinct names, when
  every promise settles (in any order): every preload hook is called and every other
  promise resolves; the rejection is reported with the descriptor's name and the error,
  and after the settling the registry is the registered one with the flag
  \<open>preloadFailed\<close> set on that descriptor only; the final registry is the other
  descriptors, in order (without any that was registered with the flag set), so a
  lookup of the failed name finds nothing; neither its init nor its start hook is ever
  called; every preload event, the rejection among them, comes before every hook call;
  and the returned promise settles.
\<close>

theorem one_preload_rejects:
  assumes k: "k < length ds" "preload (ds ! k) = Some (Rejects err)"
    and others: "\<forall>i < length ds. i \<noteq> k \<longrightarrow> preload (ds ! i) = Some Resolves"
    and settle: "\<forall>i < length ds. i \<in> set sched"
    and names: "distinct (map name ds)"
    and run: "setupPlugins sched ds a = (trace, plugins, a1, r)"
  shows "(\<forall>i < length ds. PreloadCalled i \<in> set trace)
       \<and> (\<forall>i < length ds. i \<noteq> k \<longrightarrow> PreloadResolved i \<in> set trace)
       \<and> PreloadFailed k (name (ds ! k)) err \<in> set trace
       \<and> fst (snd (settle_preloads (length ds) sched [] ds))
            = ds[k := (ds ! k)\<lparr>preloadFailed := True\<rparr>]
       \<and> plugins = filter (\<lambda>p. \<not> preloadFailed p) (take k ds @ drop (Suc k) ds)
       \<and> getPlugin plugins (name (ds ! k)) = None
       \<and> InitCalled (name (ds ! k)) \<notin> set trace
       \<and> StartCalled (name (ds ! k)) \<notin> set trace
       \<and> trace = filter (Not \<circ> is_hook_call) trace @ filter is_hook_call trace
       \<and> (\<exists>p. r = ReturnsPromise p \<and> p \<noteq> Pending)"
proof -
  let ?N = "length ds"
  let ?t0 = "map PreloadCalled [0..<?N]"
  have rp: "returns_promise (ds ! i)" if "i < ?N" for i
    using that k others by (cases "i = k") (auto simp: returns_promise_iff)
  then have all: "list_all returns_promise ds"
    by (simp add: list_all_length)
  have rej: "preload_rejects (ds ! i) \<longleftrightarrow> i = k" if "i < ?N" for i
    using that k others by (cases "i = k") (auto simp: preload_rejects_iff)
  from run show ?thesis
  proof (cases rule: setupPlugins_cases)
    case (no_callback t0 n x s t1)
    from launch_preloads_all [OF all, of 0] no_callback(1)
    have n: "n = ?N" "x = AllLaunched" by simp_all
    from settle_preloads_settled [OF no_callback(2)] settle rp n
    have "\<forall>i < ?N. i \<in> set s" by auto
    then have "list_all (\<lambda>i. i \<in> set s) [0..<?N]" by (simp add: list_all_iff)
    with run no_callback(1,2) n have "r \<noteq> ReturnsUndefined \<and> (\<forall>e. r \<noteq> Throws e)
        \<and> r \<noteq> ReturnsPromise Pending"
      by (auto simp: setupPlugins_def all_preloads_then_def split: prod.splits option.splits)
    with no_callback(5) show ?thesis by blast
  next
    case (callback s ps1 t1 t2 thrown)
    have len: "length ps1 = ?N" by (rule settle_preloads_length [OF callback(2)])
    have ps1: "ps1 = ds[k := (ds ! k)\<lparr>preloadFailed := True\<rparr>]"
    proof (rule nth_equalityI)
      show "length ps1 = length (ds[k := (ds ! k)\<lparr>preloadFailed := True\<rparr>])"
        using len by simp
    next
      fix j assume "j < length ps1"
      with len have j: "j < ?N" by simp
      with callback(3) have "j \<in> set s" by simp
      with settle_preloads_nth [OF callback(2) j] rej [OF j] j
      show "ps1 ! j = ds[k := (ds ! k)\<lparr>preloadFailed := True\<rparr>] ! j"
        by (cases "j = k") simp_all
    qed
    from then_callback_trace [OF callback(4)] obtain k' l where
      hs: "plugins = filter (\<lambda>p. \<not> preloadFailed p) ps1"
      and t2: "t2 = map (InitCalled \<circ> name) (take k' plugins)
                    @ map (StartCalled \<circ> name) (take l plugins)"
      by blast
    have plugins: "plugins = filter (\<lambda>p. \<not> preloadFailed p) (take k ds @ drop (Suc k) ds)"
      unfolding hs ps1 using k(1) by (simp add: upd_conv_take_nth_drop)
    have absent: "name (ds ! k) \<notin> name ` set plugins"
      using distinct_names_nth [OF names k(1)] unfolding plugins by auto
    have t1: "\<forall>e \<in> set t1. \<not> is_hook_call e"
      using settle_preloads_events [OF callback(2)] by blast
    then have pre: "\<forall>e \<in> set (?t0 @ t1). \<not> is_hook_call e" by auto
    have hooks: "\<forall>e \<in> set t2. is_hook_call e"
      unfolding t2 by auto
    have names_t2: "InitCalled x \<in> set t2 \<or> StartCalled x \<in> set t2 \<Longrightarrow> x \<in> name ` set plugins" for x
      unfolding t2 by (auto dest: in_set_takeD)
    have 1: "\<forall>i < ?N. PreloadCalled i \<in> set trace"
      unfolding callback(5) by simp
    have 2: "\<forall>i < ?N. i \<noteq> k \<longrightarrow> PreloadResolved i \<in> set trace"
    proof (intro allI impI)
      fix i assume i: "i < ?N" "i \<noteq> k"
      with callback(3) others have "i \<in> set s - set []" "preload (ds ! i) = Some Resolves"
        by simp_all
      with settle_preloads_events [OF callback(2)] have "PreloadResolved i \<in> set t1" by blast
      then show "PreloadResolved i \<in> set trace" unfolding callback(5) by simp
    qed
    have 3: "PreloadFailed k (name (ds ! k)) err \<in> set trace"
    proof -
      from callback(3) k have "k \<in> set s - set []" by simp
      with settle_preloads_events [OF callback(2)] k(2)
      have "PreloadFailed k (name (ds ! k)) err \<in> set t1" by blast
      then show ?thesis unfolding callback(5) by simp
    qed
    have 4: "fst (snd (settle_preloads ?N sched [] ds)) = ds[k := (ds ! k)\<lparr>preloadFailed := True\<rparr>]"
      unfolding callback(2) using ps1 by simp
    have 6: "getPlugin plugins (name (ds ! k)) = None"
      unfolding getPlugin_find find_None_iff using absent by (metis imageI)
    have nh: "InitCalled x \<notin> set (?t0 @ t1) \<and> StartCalled x \<notin> set (?t0 @ t1)" for x
    proof -
      have "is_hook_call (InitCalled x)" "is_hook_call (StartCalled x)" by simp_all
      with pre show ?thesis by blast
    qed
    have 7: "InitCalled (name (ds ! k)) \<notin> set trace" "StartCalled (name (ds ! k)) \<notin> set trace"
      using absent names_t2 [of "name (ds ! k)"] nh [of "name (ds ! k)"]
      unfolding callback(5) by auto
    have 8: "trace = filter (Not \<circ> is_hook_call) trace @ filter is_hook_call trace"
      unfolding callback(5) using pre hooks
      by (simp add: filter_id_conv filter_empty_conv)
    have 9: "\<exists>p. r = ReturnsPromise p \<and> p \<noteq> Pending"
      unfolding callback(6) by (cases thrown) simp_all
    from 1 2 3 4 plugins 6 7 8 9 show ?thesis by blast
  qed
qed


theorem one_preload_rejects_witness:
  "PreloadFailed 1 ''b'' (JSError Error ''offline'')
     \<in> set (fst (setupPlugins [1, 2, 0]
       [\<lparr>name = ''a'', preload = Some Resolves, init = Some (\<lambda>a. (a, None)),
          start = Some (\<lambda>a. (a, None)), preloadFailed = False\<rparr>,
        \<lparr>name = ''b'', preload = Some (Rejects (JSError Error ''offline'')),
          init = Some (\<lambda>a. (a, Some (JSError Error ''never called''))),
          start = Some (\<lambda>a. (a, None)), preloadFailed = False\<rparr>,
        \<lparr>name = ''c'', preload = Some Resolves, init = Some (\<lambda>a. (a, None)),
          start = Some (\<lambda>a. (a, None)), preloadFailed = False\<rparr>]
       (new_app None)))
   \<and> InitCalled ''b''
     \<notin> set (fst (setupPlugins [1, 2, 0]
       [\<lparr>name = ''a'', preload = Some Resolves, init = Some (\<lambda>a. (a, None)),
          start = Some (\<lambda>a. (a, None)), preloadFailed = False\<rparr>,
        \<lparr>name = ''b'', preload = Some (Rejects (JSError Error ''offline'')),
          init = Some (\<lambda>a. (a, Some (JSError Error ''never called''))),
          start = Some (\<lambda>a. (a, None)), preloadFailed = False\<rparr>,
        \<lparr>name = ''c'', preload = Some Resolves, init = Some (\<lambda>a. (a, None)),
          start = Some (\<lambda>a. (a, None)), preloadFailed = False\<rparr>]
       (new_app None)))
   \<and> StartCalled ''b''
     \<notin> set (fst (setupPlugins [1, 2, 0]
       [\<lparr>name = ''a'', preload = Some Resolves, init = Some (\<lambda>a. (a, None)),
          start = Some (\<lambda>a. (a, None)), preloadFailed = False\<rparr>,
        \<lparr>name = ''b'', preload = Some (Rejects (JSError Error ''offline'')),
          init = Some (\<lambda>a. (a, Some (JSError Error ''never called''))),
          start = Some (\<lambda>a. (a, None)), preloadFailed = False\<rparr>,
        \<lparr>name = ''c'', preload = Some Resolves, init = Some (\<lambda>a. (a, None)),
          start = Some (\<lambda>a. (a, None)), preloadFailed = False\<rparr>]
       (new_app None)))
   \<and> map name (fst (snd (setupPlugins [1, 2, 0]
       [\<lparr>name = ''a'', preload = Some Resolves, init = Some (\<lambda>a. (a, None)),
          start = Some (\<lambda>a. (a, None)), preloadFailed = False\<rparr>,
        \<lparr>name = ''b'', preload = Some (Rejects (JSError Error ''offline'')),
          init = Some (\<lambda>a. (a, Some (JSError Error ''never called''))),
          start = Some (\<lambda>a. (a, None)), preloadFailed = False\<rparr>,
        \<lparr>name = ''c'', preload = Some Resolves, init = Some (\<lambda>a. (a, None)),
          start = Some (\<lambda>a. (a, None)), preloadFailed = False\<rparr>]
       (new_app None)))) = [''a'', ''c'']"
proof -
  let ?D = "[\<lparr>name = ''a'', preload = Some Resolves, init = Some (\<lambda>a. (a, None)),
          start = Some (\<lambda>a. (a, None)), preloadFailed = False\<rparr>,
        \<lparr>name = ''b'', preload = Some (Rejects (JSError Error ''offline'')),
          init = Some (\<lambda>a. (a, Some (JSError Error ''never called''))),
          start = Some (\<lambda>a. (a, None)), preloadFailed = False\<rparr>,
        \<lparr>name = ''c'', preload = Some Resolves, init = Some (\<lambda>a. (a, None)),
          start = Some (\<lambda>a. (a, None)), preloadFailed = False\<rparr>]"
  let ?X = "setupPlugins [1, 2, 0] ?D (new_app None)"
  have ev: "?X = (fst ?X, fst (snd ?X), fst (snd (snd ?X)), snd (snd (snd ?X)))"
    by simp
  have k: "1 < length ?D" "preload (?D ! 1) = Some (Rejects (JSError Error ''offline''))"
    by simp_all
  have others: "\<forall>i < length ?D. i \<noteq> 1 \<longrightarrow> preload (?D ! i) = Some Resolves"
    by (simp add: All_less_Suc)
  have settle: "\<forall>i < length ?D. i \<in> set [1, 2, 0]"
    by (simp add: All_less_Suc)
  have names: "distinct (map name ?D)"
    by simp
  from one_preload_rejects [OF k others settle names ev]
  have "PreloadFailed 1 (name (?D ! 1)) (JSError Error ''offline'') \<in> set (fst ?X)"
    and "InitCalled (name (?D ! 1)) \<notin> set (fst ?X)"
    and "StartCalled (name (?D ! 1)) \<notin> set (fst ?X)"
    and "fst (snd ?X) = filter (\<lambda>p. \<not> preloadFailed p) (take 1 ?D @ drop (Suc 1) ?D)"
    by blast+
  then show ?thesis by simp
qed

end
